theory Spec2Isabelle
  imports Main "HOL-Library.Word"
begin

unbundle bit_operations_syntax

section \<open>The byte cursor (class TerrariaFileParser)\<close>

text \<open>
  The world-save decoder reads a \<^verbatim>\<open>DataView\<close> through a cursor object whose fields are
  mutated by every read. The model threads the object through every call as a record.

  A JavaScript number is modelled as a mathematical integer (exact below \<open>2^53\<close>, far
  above any offset a buffer can hold), with one more value for \<^verbatim>\<open>NaN\<close>: \<^verbatim>\<open>parse\<close> assigns
  \<^verbatim>\<open>this.world.pointers[idx]\<close> to the offset, which is \<^verbatim>\<open>undefined\<close> when the pointer table is
  short, and the next \<^verbatim>\<open>this.offset += w\<close> turns it into \<^verbatim>\<open>NaN\<close>. Nothing observes the
  offset between the two, so both are the one value \<open>NaN\<close> here.
\<close>

type_synonym byte = "8 word"

datatype offs = At int | NaN

fun offs_add :: "offs \<Rightarrow> int \<Rightarrow> offs" where
  "offs_add (At n) k = At (n + k)"
| "offs_add NaN k = NaN"

text \<open>\<^verbatim>\<open>a > b\<close> and \<^verbatim>\<open>a >= b\<close> with a number on the right: false when \<open>a\<close> is \<^verbatim>\<open>NaN\<close>.\<close>

fun offs_gt :: "offs \<Rightarrow> int \<Rightarrow> bool" where
  "offs_gt (At n) k = (n > k)"
| "offs_gt NaN k = False"

fun offs_ge :: "offs \<Rightarrow> int \<Rightarrow> bool" where
  "offs_ge (At n) k = (n \<ge> k)"
| "offs_ge NaN k = False"

text \<open>
  The errors the decoder can end with. A \<^verbatim>\<open>DataView\<close> getter outside the view and
  \<^verbatim>\<open>new Array(n)\<close> with a negative \<open>n\<close> both throw a \<^verbatim>\<open>RangeError\<close>; the validator throws
  \<^verbatim>\<open>Error("Invalid file type")\<close> and
  \<^verbatim>\<open>Error("Map version is older than 1.3.5.3 and cannot be parsed")\<close>.
\<close>

datatype error = OutOfBounds | InvalidArrayLength | InvalidFileType | VersionTooOld

text \<open>
  The closure variables of the accessor that \<^verbatim>\<open>parse\<close> installs on \<^verbatim>\<open>offset\<close> when a
  progress callback is supplied.
\<close>

record hook =
  onePercentSize :: int
  nextPercentSize :: int
  percent :: int

text \<open>
  The parser object: \<^verbatim>\<open>offset\<close>, \<^verbatim>\<open>buffer\<close>, \<^verbatim>\<open>options.ignoreBounds\<close> (absent counts as
  false) and \<^verbatim>\<open>RLE\<close>, then the accessor's state (\<open>None\<close> while \<^verbatim>\<open>offset\<close> is a plain
  field) and the percentages handed to the progress callback so far, oldest first. The
  callback belongs to the caller; all the model keeps of it is that list.
\<close>

record parser =
  offset :: offs
  buffer :: "byte list"
  ignoreBounds :: bool
  RLE :: int
  progress :: "hook option"
  reported :: "int list"

text \<open>
  An assignment to \<^verbatim>\<open>this.offset\<close>. With the accessor installed the setter stores the
  value and, when it has reached \<^verbatim>\<open>nextPercentSize\<close>, counts one more percent and calls
  the callback.
\<close>

definition set_offset :: "offs \<Rightarrow> parser \<Rightarrow> parser" where
  "set_offset v p =
     (case progress p of
        None \<Rightarrow> p\<lparr>offset := v\<rparr>
      | Some h \<Rightarrow>
          if offs_ge v (nextPercentSize h)
          then p\<lparr>offset := v,
                 progress := Some (h\<lparr>percent := percent h + 1,
                                     nextPercentSize := nextPercentSize h + onePercentSize h\<rparr>),
                 reported := reported p @ [percent h + 1]\<rparr>
          else p\<lparr>offset := v\<rparr>)"

text \<open>
  A method of the parser either returns a value or throws, and leaves the object changed
  in both cases.
\<close>

type_synonym 'a rd = "parser \<Rightarrow> (error + 'a) \<times> parser"

definition ret :: "'a \<Rightarrow> 'a rd" where
  "ret a p = (Inr a, p)"

definition throw :: "error \<Rightarrow> 'a rd" where
  "throw e p = (Inl e, p)"

definition thenDo :: "'a rd \<Rightarrow> ('a \<Rightarrow> 'b rd) \<Rightarrow> 'b rd" where
  "thenDo m f p = (case m p of (Inl e, p1) \<Rightarrow> (Inl e, p1) | (Inr a, p1) \<Rightarrow> f a p1)"

subsection \<open>DataView getters\<close>

text \<open>
  \<^verbatim>\<open>ToIndex\<close> of the requested position: \<^verbatim>\<open>NaN\<close> becomes 0, a negative integer is a
  \<^verbatim>\<open>RangeError\<close>. The getter then throws unless the \<open>w\<close> bytes from there lie inside the view.
\<close>

fun to_index :: "offs \<Rightarrow> nat option" where
  "to_index (At n) = (if n < 0 then None else Some (nat n))"
| "to_index NaN = Some 0"

definition view_bytes :: "byte list \<Rightarrow> offs \<Rightarrow> nat \<Rightarrow> byte list option" where
  "view_bytes buf req w =
     (case to_index req of
        None \<Rightarrow> None
      | Some i \<Rightarrow> if i + w > length buf then None else Some (take w (drop i buf)))"

text \<open>Little-endian decoding, unsigned and two's complement.\<close>

definition le_uint :: "byte list \<Rightarrow> int" where
  "le_uint bs = foldr (\<lambda>b acc. uint b + 256 * acc) bs 0"

definition le_sint :: "byte list \<Rightarrow> int" where
  "le_sint bs =
     (let v = le_uint bs; n = 8 * length bs
      in if v \<ge> 2 ^ (n - 1) then v - 2 ^ n else v)"

subsection \<open>Typed reads\<close>

text \<open>
  The seven typed reads share one body:
  \<^verbatim>\<open>this.offset += w; if (this.options.ignoreBounds && this.offset > this.buffer.byteLength) return 0; return this.buffer.getX(this.offset - w, true);\<close>
  \<open>typed_read w dec\<close> is that body for the width \<open>w\<close> and the getter's decoding \<open>dec\<close>.
\<close>

definition typed_read :: "nat \<Rightarrow> (byte list \<Rightarrow> int) \<Rightarrow> int rd" where
  "typed_read w dec p =
     (let p1 = set_offset (offs_add (offset p) (int w)) p
      in if ignoreBounds p1 \<and> offs_gt (offset p1) (int (length (buffer p1)))
         then (Inr 0, p1)
         else (case view_bytes (buffer p1) (offs_add (offset p1) (- int w)) w of
                 None \<Rightarrow> (Inl OutOfBounds, p1)
               | Some bs \<Rightarrow> (Inr (dec bs), p1)))"

definition readUInt8 :: "int rd" where
  "readUInt8 = typed_read 1 le_uint"

definition readInt16 :: "int rd" where
  "readInt16 = typed_read 2 le_sint"

definition readUInt16 :: "int rd" where
  "readUInt16 = typed_read 2 le_uint"

definition readInt32 :: "int rd" where
  "readInt32 = typed_read 4 le_sint"

definition readUInt32 :: "int rd" where
  "readUInt32 = typed_read 4 le_uint"

text \<open>
  Floating-point values are not interpreted: a float read returns the IEEE-754 bit
  pattern of the bytes as an unsigned integer, of which the JavaScript number is a
  function. The lenient zero is \<open>+0.0\<close>, whose bit pattern is 0.
\<close>

definition readFloat32 :: "int rd" where
  "readFloat32 = typed_read 4 le_uint"

definition readFloat64 :: "int rd" where
  "readFloat64 = typed_read 8 le_uint"

definition readBoolean :: "bool rd" where
  "readBoolean = thenDo readUInt8 (\<lambda>v. ret (v \<noteq> 0))"

text \<open>\<^verbatim>\<open>for (let i = 0; i < count; i++) data[i] = this.readUInt8();\<close>\<close>

function readBytes_loop :: "int \<Rightarrow> int \<Rightarrow> int list \<Rightarrow> int list rd" where
  "readBytes_loop i n acc p =
     (if i < n
      then (case readUInt8 p of
              (Inl e, p1) \<Rightarrow> (Inl e, p1)
            | (Inr b, p1) \<Rightarrow> readBytes_loop (i + 1) n (acc @ [b]) p1)
      else (Inr acc, p))"
  by pat_completeness auto
termination
  by (relation "measure (\<lambda>(i, n, acc, p). nat (n - i))") auto

declare readBytes_loop.simps [simp del]

definition readBytes :: "int \<Rightarrow> int list rd" where
  "readBytes n = readBytes_loop 0 n []"

definition skipBytes :: "int \<Rightarrow> unit rd" where
  "skipBytes n p = (Inr (), set_offset (offs_add (offset p) n) p)"

definition jumpTo :: "offs \<Rightarrow> unit rd" where
  "jumpTo v p = (Inr (), set_offset v p)"

text \<open>
  A parser object as \<^verbatim>\<open>new TerrariaWorldParser()\<close> followed by \<^verbatim>\<open>loadFile\<close> leaves it:
  offset 0, the file's bytes, no \<^verbatim>\<open>ignoreBounds\<close> option, \<^verbatim>\<open>RLE\<close> 0, \<^verbatim>\<open>offset\<close> a plain field.
\<close>

definition new_parser :: "byte list \<Rightarrow> parser" where
  "new_parser buf =
     \<lparr>offset = At 0, buffer = buf, ignoreBounds = False, RLE = 0, progress = None, reported = []\<rparr>"

text \<open>
  \<^verbatim>\<open>readString\<close> may not return: with the offset \<^verbatim>\<open>NaN\<close> every read fetches the byte at
  index 0, and the length loop below runs for ever when that byte has its high bit set.
  Methods that read strings therefore return an option, \<open>None\<close> for a run that does not
  end.
\<close>

type_synonym 'a prd = "parser \<Rightarrow> ((error + 'a) \<times> parser) option"

definition lift :: "'a rd \<Rightarrow> 'a prd" where
  "lift m p = Some (m p)"

definition thenDoP :: "'a prd \<Rightarrow> ('a \<Rightarrow> 'b prd) \<Rightarrow> 'b prd" where
  "thenDoP m f p =
     (case m p of
        None \<Rightarrow> None
      | Some (Inl e, p1) \<Rightarrow> Some (Inl e, p1)
      | Some (Inr a, p1) \<Rightarrow> f a p1)"

text \<open>
  The length prefix of a string:
  \<^verbatim>\<open>do { byte = this.readUInt8(); length |= (byte & 127) << shift; shift += 7; } while (byte & 128);\<close>
  The bitwise operators work on 32-bit integers and the shift count is taken modulo 32,
  so \<^verbatim>\<open>length\<close> is a 32-bit word, read as a signed number at the end.
\<close>

partial_function (option) readString_length :: "32 word \<Rightarrow> int \<Rightarrow> parser \<Rightarrow> ((error + int) \<times> parser) option" where
  "readString_length len shift p =
     (case readUInt8 p of
        (Inl e, p1) \<Rightarrow> Some (Inl e, p1)
      | (Inr b, p1) \<Rightarrow>
          if b AND 128 \<noteq> 0
          then readString_length (len OR push_bit (nat (shift mod 32)) (word_of_int (b AND 127))) (shift + 7) p1
          else Some (Inr (sint (len OR push_bit (nat (shift mod 32)) (word_of_int (b AND 127)))), p1))"

declare readString_length.simps [code]

text \<open>
  \<^verbatim>\<open>readString(length?)\<close> returns \<^verbatim>\<open>new TextDecoder().decode(this.readBytes(length))\<close>. The
  model returns the bytes read and leaves the UTF-8 decoding, a function of those bytes,
  to the reader of the result.
\<close>

definition readString_n :: "int \<Rightarrow> int list prd" where
  "readString_n n = lift (readBytes n)"

definition readString :: "int list prd" where
  "readString = thenDoP (readString_length 0 0) (\<lambda>n. lift (readBytes n))"

text \<open>
  Count-controlled loops, \<^verbatim>\<open>for (let i = COUNT; i > 0; i--) xs.push(READ)\<close>, over a read
  that always returns and over one that may not.
\<close>

function repeat_read :: "int \<Rightarrow> 'a rd \<Rightarrow> 'a list \<Rightarrow> 'a list rd" where
  "repeat_read i m acc p =
     (if i > 0
      then (case m p of
              (Inl e, p1) \<Rightarrow> (Inl e, p1)
            | (Inr a, p1) \<Rightarrow> repeat_read (i - 1) m (acc @ [a]) p1)
      else (Inr acc, p))"
  by pat_completeness auto
termination
  by (relation "measure (\<lambda>(i, m, acc, p). nat i)") auto

declare repeat_read.simps [simp del]

function repeat_readP :: "int \<Rightarrow> 'a prd \<Rightarrow> 'a list \<Rightarrow> 'a list prd" where
  "repeat_readP i m acc p =
     (if i > 0
      then (case m p of
              None \<Rightarrow> None
            | Some (Inl e, p1) \<Rightarrow> Some (Inl e, p1)
            | Some (Inr a, p1) \<Rightarrow> repeat_readP (i - 1) m (acc @ [a]) p1)
      else Some (Inr acc, p))"
  by pat_completeness auto
termination
  by (relation "measure (\<lambda>(i, m, acc, p). nat i)") auto

declare repeat_readP.simps [simp del]

text \<open>
  \<^verbatim>\<open>parseBitsByte(size)\<close>: one byte per started group of eight bits,
  \<^verbatim>\<open>for (let i = size; i > 0; i -= 8) bytes.push(this.readUInt8())\<close>, then bit \<open>i mod 8\<close> of
  byte \<open>i div 8\<close> for every \<open>i\<close> below \<open>size\<close> (the byte is there: \<open>i div 8\<close> is below the
  number of bytes read).
\<close>

function parseBitsByte_bytes :: "int \<Rightarrow> int list \<Rightarrow> int list rd" where
  "parseBitsByte_bytes i acc p =
     (if i > 0
      then (case readUInt8 p of
              (Inl e, p1) \<Rightarrow> (Inl e, p1)
            | (Inr b, p1) \<Rightarrow> parseBitsByte_bytes (i - 8) (acc @ [b]) p1)
      else (Inr acc, p))"
  by pat_completeness auto
termination
  by (relation "measure (\<lambda>(i, acc, p). nat i)") auto

declare parseBitsByte_bytes.simps [simp del]

definition parseBitsByte :: "int \<Rightarrow> bool list rd" where
  "parseBitsByte sz =
     thenDo (parseBitsByte_bytes sz [])
       (\<lambda>bytes. ret (map (\<lambda>i. (bytes ! (i div 8)) AND push_bit (i mod 8) 1 > 0) [0..<nat sz]))"

text \<open>
  \<^verbatim>\<open>parseGuid\<close>: the first three groups byte-reversed, every byte as two lower-case
  hexadecimal digits, a dash after the elements 4, 6, 8 and 10.
\<close>

definition hex2 :: "int \<Rightarrow> string" where
  "hex2 b = [''0123456789abcdef'' ! nat (b div 16), ''0123456789abcdef'' ! nat (b mod 16)]"

definition parseGuid :: "int list \<Rightarrow> string" where
  "parseGuid b =
     concat (map (\<lambda>(i, x). hex2 x @ (if i \<in> {4, 6, 8, 10} then ''-'' else []))
       (enumerate (0::nat) (rev (take 4 b) @ rev (take 2 (drop 4 b)) @ rev (take 2 (drop 6 b)) @ drop 8 b)))"

section \<open>The format validator (parseNecessaryData)\<close>

record WorldNecessary =
  version :: int
  pointers :: "int list"
  importants :: "bool list"
  width :: int
  height :: int

text \<open>
  The body of the \<^verbatim>\<open>try\<close> block. The magic string is kept as the seven bytes read: the
  decoded string equals \<^verbatim>\<open>"relogic"\<close> exactly when they are the seven ASCII codes of that
  word (seven bytes decode to seven ASCII characters only one byte per character).
\<close>

definition relogic :: "int list" where
  "relogic = [114, 101, 108, 111, 103, 105, 99]"

definition preamble :: "(int \<times> int list \<times> int \<times> int list \<times> bool list \<times> int \<times> int) prd" where
  "preamble =
     thenDoP (lift readInt32) (\<lambda>version.
     thenDoP (readString_n 7) (\<lambda>magicNumber.
     thenDoP (lift readUInt8) (\<lambda>fileType.
     thenDoP (lift (skipBytes 12)) (\<lambda>_.
     thenDoP (lift readInt16) (\<lambda>n.
     thenDoP (lift (repeat_read n readInt32 [0])) (\<lambda>pointers.
     thenDoP (lift readInt16) (\<lambda>m.
     thenDoP (lift (parseBitsByte m)) (\<lambda>importants.
     thenDoP readString (\<lambda>_.
     thenDoP readString (\<lambda>_.
     thenDoP (lift (skipBytes 44)) (\<lambda>_.
     thenDoP (lift readInt32) (\<lambda>height.
     thenDoP (lift readInt32) (\<lambda>width.
     lift (ret (version, magicNumber, fileType, pointers, importants, height, width)))))))))))))))"

definition parseNecessaryData :: "WorldNecessary prd" where
  "parseNecessaryData p =
     (case preamble (set_offset (At 0) p) of
        None \<Rightarrow> None
      | Some (Inl e, p1) \<Rightarrow> Some (Inl InvalidFileType, p1)
      | Some (Inr (ver, magicNumber, fileType, ptrs, imps, h, w), p1) \<Rightarrow>
          (let p2 = set_offset (At 0) p1
           in if magicNumber \<noteq> relogic \<or> fileType \<noteq> 2 then Some (Inl InvalidFileType, p2)
              else if ver < 194 then Some (Inl VersionTooOld, p2)
              else Some (Inr \<lparr>version = ver, pointers = ptrs, importants = imps,
                               width = w, height = h\<rparr>, p2)))"

text \<open>
  The three fields of the buffer that the validator checks, read off the buffer itself:
  the version in the bytes 0 to 3, the magic string in the bytes 4 to 10, the file type
  in byte 11.
\<close>

definition header_version :: "byte list \<Rightarrow> int" where
  "header_version buf = le_sint (take 4 buf)"

definition header_magic :: "byte list \<Rightarrow> int list" where
  "header_magic buf = map uint (take 7 (drop 4 buf))"

definition header_type :: "byte list \<Rightarrow> int" where
  "header_type buf = uint (buf ! 11)"

definition acceptable :: "byte list \<Rightarrow> bool" where
  "acceptable buf \<longleftrightarrow>
     12 \<le> length buf \<and> header_magic buf = relogic \<and> header_type buf = 2 \<and> 194 \<le> header_version buf"

text \<open>
  Two properties of a method, for the proofs below. A steady method leaves the buffer and
  the bounds mode alone and an integer offset an integer; a steady method that may not
  return does return from an integer offset.
\<close>

definition steady :: "'a rd \<Rightarrow> bool" where
  "steady m \<longleftrightarrow>
     (\<forall>p. buffer (snd (m p)) = buffer p \<and> ignoreBounds (snd (m p)) = ignoreBounds p \<and>
          (\<forall>n. offset p = At n \<longrightarrow> (\<exists>n'. offset (snd (m p)) = At n')))"

definition steadyP :: "'a prd \<Rightarrow> bool" where
  "steadyP m \<longleftrightarrow>
     (\<forall>p n. offset p = At n \<longrightarrow>
        (\<exists>r p' n'. m p = Some (r, p') \<and> offset p' = At n' \<and> buffer p' = buffer p \<and>
           ignoreBounds p' = ignoreBounds p))"

text \<open>
  A strict parser over a truncated buffer against a strict parser at the same offset over
  the whole buffer; a method follows when, wherever it returns a value on the truncated
  buffer, it returns the same value on the whole one, and leaves the two parsers so
  related again.
\<close>

definition prefix_of :: "parser \<Rightarrow> parser \<Rightarrow> bool" where
  "prefix_of p q \<longleftrightarrow>
     (\<exists>k. buffer p = take k (buffer q)) \<and> offset p = offset q \<and> \<not> ignoreBounds p \<and> \<not> ignoreBounds q"

definition follows :: "'a rd \<Rightarrow> bool" where
  "follows m \<longleftrightarrow>
     (\<forall>p q a p'. prefix_of p q \<and> m p = (Inr a, p') \<longrightarrow> (\<exists>q'. m q = (Inr a, q') \<and> prefix_of p' q'))"

definition followsP :: "'a prd \<Rightarrow> bool" where
  "followsP m \<longleftrightarrow>
     (\<forall>p q a p'. prefix_of p q \<and> m p = Some (Inr a, p') \<longrightarrow>
        (\<exists>q'. m q = Some (Inr a, q') \<and> prefix_of p' q'))"

section \<open>The header decoder (parseHeader)\<close>

text \<open>
  The header is a JavaScript object built by one assignment after the other,
  \<^verbatim>\<open>data.name = this.readX()\<close>. The object is a map from property names to values; a
  name never assigned is absent. A value is a number, a boolean, a double or float (kept
  as its bit pattern), a byte array, a string (kept as its bytes), the text of the GUID, or
  an array of numbers or of strings.
\<close>

datatype hval =
  HNum int | HBool bool | HFloat int | HBytes "int list" | HString "int list" | HText string |
  HNums "int list" | HStrings "int list list"

type_synonym header = "string \<rightharpoonup> hval"

text \<open>The right-hand sides of the assignments.\<close>

definition rInt32 :: "hval prd" where
  "rInt32 = lift (thenDo readInt32 (\<lambda>v. ret (HNum v)))"

definition rInt16 :: "hval prd" where
  "rInt16 = lift (thenDo readInt16 (\<lambda>v. ret (HNum v)))"

definition rUInt8 :: "hval prd" where
  "rUInt8 = lift (thenDo readUInt8 (\<lambda>v. ret (HNum v)))"

definition rBoolean :: "hval prd" where
  "rBoolean = lift (thenDo readBoolean (\<lambda>v. ret (HBool v)))"

definition rFloat32 :: "hval prd" where
  "rFloat32 = lift (thenDo readFloat32 (\<lambda>v. ret (HFloat v)))"

definition rFloat64 :: "hval prd" where
  "rFloat64 = lift (thenDo readFloat64 (\<lambda>v. ret (HFloat v)))"

definition rBytes :: "int \<Rightarrow> hval prd" where
  "rBytes n = lift (thenDo (readBytes n) (\<lambda>v. ret (HBytes v)))"

definition rString :: "hval prd" where
  "rString = thenDoP readString (\<lambda>v. lift (ret (HString v)))"

definition rConst :: "hval \<Rightarrow> hval prd" where
  "rConst v = lift (ret v)"

text \<open>An array literal of reads, \<^verbatim>\<open>[this.readInt32(), this.readInt32(), ...]\<close>, left to right.\<close>

fun read_each :: "int rd list \<Rightarrow> int list rd" where
  "read_each [] = ret []"
| "read_each (m # ms) = thenDo m (\<lambda>v. thenDo (read_each ms) (\<lambda>vs. ret (v # vs)))"

definition rArray :: "int rd list \<Rightarrow> hval prd" where
  "rArray ms = lift (thenDo (read_each ms) (\<lambda>vs. ret (HNums vs)))"

text \<open>
  \<^verbatim>\<open>data.xs = []; for (let i = COUNT; i > 0; i--) data.xs.push(READ);\<close> with numbers and
  with strings.
\<close>

definition rCounted :: "int rd \<Rightarrow> int rd \<Rightarrow> hval prd" where
  "rCounted cnt m = lift (thenDo cnt (\<lambda>n. thenDo (repeat_read n m []) (\<lambda>vs. ret (HNums vs))))"

definition rCountedStrings :: "int rd \<Rightarrow> hval prd" where
  "rCountedStrings cnt =
     thenDoP (lift cnt) (\<lambda>n. thenDoP (repeat_readP n readString []) (\<lambda>vs. lift (ret (HStrings vs))))"

text \<open>\<^verbatim>\<open>this.parseGuid(data.guid)\<close>, of the bytes assigned to \<^verbatim>\<open>guid\<close> just before.\<close>

definition guidString :: "header \<Rightarrow> hval" where
  "guidString data = HText (parseGuid (case data ''guid'' of Some (HBytes b) \<Rightarrow> b | _ \<Rightarrow> []))"

text \<open>
  The statements of \<^verbatim>\<open>parseHeader\<close>: an assignment of a value read from the stream, an
  assignment of a value computed from the object so far, and \<^verbatim>\<open>if (c) { ... } else { ... }\<close>
  on a condition over the version, with an empty second list when there is no
  \<^verbatim>\<open>else\<close>.
\<close>

datatype stmt = Assign string "hval prd" | Derive string "header \<Rightarrow> hval" | IfElse bool "stmt list" "stmt list"

fun exec :: "stmt \<Rightarrow> header \<Rightarrow> header prd" and exec_all :: "stmt list \<Rightarrow> header \<Rightarrow> header prd" where
  "exec (Assign name rd) data = thenDoP rd (\<lambda>v. lift (ret (data(name \<mapsto> v))))"
| "exec (Derive name f) data = lift (ret (data(name \<mapsto> f data)))"
| "exec (IfElse c ss1 ss2) data = (if c then exec_all ss1 data else exec_all ss2 data)"
| "exec_all [] data = lift (ret data)"
| "exec_all (s # ss) data = thenDoP (exec s data) (exec_all ss)"

text \<open>The property names a statement assigns.\<close>

fun names :: "stmt \<Rightarrow> string list" and names_all :: "stmt list \<Rightarrow> string list" where
  "names (Assign name rd) = [name]"
| "names (Derive name f) = [name]"
| "names (IfElse c ss1 ss2) = (if c then names_all ss1 else names_all ss2)"
| "names_all [] = []"
| "names_all (s # ss) = names s @ names_all ss"

definition header_fields :: "WorldNecessary \<Rightarrow> stmt list" where
  "header_fields world =
     [Assign ''mapName'' rString,
      Assign ''seedText'' rString,
      Assign ''worldGeneratorVersion'' (rBytes 8),
      Assign ''guid'' (rBytes 16),
      Derive ''guidString'' guidString,
      Assign ''worldId'' rInt32,
      Assign ''leftWorld'' rInt32,
      Assign ''rightWorld'' rInt32,
      Assign ''topWorld'' rInt32,
      Assign ''bottomWorld'' rInt32,
      Assign ''maxTilesY'' rInt32,
      Assign ''maxTilesX'' rInt32,
      IfElse (225 \<le> version world)
        [Assign ''gameMode'' rInt32,
         Assign ''drunkWorld'' rBoolean,
         IfElse (227 \<le> version world) [Assign ''getGoodWorld'' rBoolean] [],
         IfElse (238 \<le> version world) [Assign ''getTenthAnniversaryWorld'' rBoolean] [],
         IfElse (239 \<le> version world) [Assign ''dontStarveWorld'' rBoolean] [],
         IfElse (241 \<le> version world) [Assign ''notTheBeesWorld'' rBoolean] [],
         IfElse (249 \<le> version world) [Assign ''remixWorld'' rBoolean] [],
         IfElse (266 \<le> version world) [Assign ''noTrapsWorld'' rBoolean] [],
         IfElse (267 \<le> version world) [Assign ''zenithWorld'' rBoolean] []]
        [Assign ''expertMode'' rBoolean],
      Assign ''creationTime'' (rBytes 8),
      Assign ''moonType'' rUInt8,
      Assign ''treeX'' (rArray [readInt32, readInt32, readInt32]),
      Assign ''treeStyle'' (rArray [readInt32, readInt32, readInt32, readInt32]),
      Assign ''caveBackX'' (rArray [readInt32, readInt32, readInt32]),
      Assign ''caveBackStyle'' (rArray [readInt32, readInt32, readInt32, readInt32]),
      Assign ''iceBackStyle'' rInt32,
      Assign ''jungleBackStyle'' rInt32,
      Assign ''hellBackStyle'' rInt32,
      Assign ''spawnTileX'' rInt32,
      Assign ''spawnTileY'' rInt32,
      Assign ''worldSurface'' rFloat64,
      Assign ''rockLayer'' rFloat64,
      Assign ''tempTime'' rFloat64,
      Assign ''tempDayTime'' rBoolean,
      Assign ''tempMoonPhase'' rInt32,
      Assign ''tempBloodMoon'' rBoolean,
      Assign ''tempEclipse'' rBoolean,
      Assign ''dungeonX'' rInt32,
      Assign ''dungeonY'' rInt32,
      Assign ''crimson'' rBoolean,
      Assign ''downedBoss1'' rBoolean,
      Assign ''downedBoss2'' rBoolean,
      Assign ''downedBoss3'' rBoolean,
      Assign ''downedQueenBee'' rBoolean,
      Assign ''downedMechBoss1'' rBoolean,
      Assign ''downedMechBoss2'' rBoolean,
      Assign ''downedMechBoss3'' rBoolean,
      Assign ''downedMechBossAny'' rBoolean,
      Assign ''downedPlantBoss'' rBoolean,
      Assign ''downedGolemBoss'' rBoolean,
      Assign ''downedSlimeKing'' rBoolean,
      Assign ''savedGoblin'' rBoolean,
      Assign ''savedWizard'' rBoolean,
      Assign ''savedMech'' rBoolean,
      Assign ''downedGoblins'' rBoolean,
      Assign ''downedClown'' rBoolean,
      Assign ''downedFrost'' rBoolean,
      Assign ''downedPirates'' rBoolean,
      Assign ''shadowOrbSmashed'' rBoolean,
      Assign ''spawnMeteor'' rBoolean,
      Assign ''shadowOrbCount'' rUInt8,
      Assign ''altarCount'' rInt32,
      Assign ''hardMode'' rBoolean,
      Assign ''afterPartyOfDoom'' (if 257 \<le> version world then rBoolean else rConst (HBool False)),
      Assign ''invasionDelay'' rInt32,
      Assign ''invasionSize'' rInt32,
      Assign ''invasionType'' rInt32,
      Assign ''invasionX'' rFloat64,
      Assign ''slimeRainTime'' rFloat64,
      Assign ''sundialCooldown'' rUInt8,
      Assign ''tempRaining'' rBoolean,
      Assign ''tempRainTime'' rInt32,
      Assign ''tempMaxRain'' rFloat32,
      Assign ''oreTier1'' rInt32,
      Assign ''oreTier2'' rInt32,
      Assign ''oreTier3'' rInt32,
      Assign ''setBG0'' rUInt8,
      Assign ''setBG1'' rUInt8,
      Assign ''setBG2'' rUInt8,
      Assign ''setBG3'' rUInt8,
      Assign ''setBG4'' rUInt8,
      Assign ''setBG5'' rUInt8,
      Assign ''setBG6'' rUInt8,
      Assign ''setBG7'' rUInt8,
      Assign ''cloudBGActive'' rInt32,
      Assign ''numClouds'' rInt16,
      Assign ''windSpeed'' rFloat32,
      Assign ''anglerWhoFinishedToday'' (rCountedStrings readInt32),
      Assign ''savedAngler'' rBoolean,
      Assign ''anglerQuest'' rInt32,
      Assign ''savedStylist'' rBoolean,
      Assign ''savedTaxCollector'' rBoolean,
      IfElse (225 \<le> version world) [Assign ''savedGolfer'' rBoolean] [],
      Assign ''invasionSizeStart'' rInt32,
      Assign ''tempCultistDelay'' rInt32,
      Assign ''killCount'' (rCounted readInt16 readInt32),
      Assign ''fastForwardTimeToDawn'' rBoolean,
      Assign ''downedFishron'' rBoolean,
      Assign ''downedMartians'' rBoolean,
      Assign ''downedAncientCultist'' rBoolean,
      Assign ''downedMoonlord'' rBoolean,
      Assign ''downedHalloweenKing'' rBoolean,
      Assign ''downedHalloweenTree'' rBoolean,
      Assign ''downedChristmasIceQueen'' rBoolean,
      Assign ''downedChristmasSantank'' rBoolean,
      Assign ''downedChristmasTree'' rBoolean,
      Assign ''downedTowerSolar'' rBoolean,
      Assign ''downedTowerVortex'' rBoolean,
      Assign ''downedTowerNebula'' rBoolean,
      Assign ''downedTowerStardust'' rBoolean,
      Assign ''TowerActiveSolar'' rBoolean,
      Assign ''TowerActiveVortex'' rBoolean,
      Assign ''TowerActiveNebula'' rBoolean,
      Assign ''TowerActiveStardust'' rBoolean,
      Assign ''LunarApocalypseIsUp'' rBoolean,
      Assign ''tempPartyManual'' rBoolean,
      Assign ''tempPartyGenuine'' rBoolean,
      Assign ''tempPartyCooldown'' rInt32,
      Assign ''tempPartyCelebratingNPCs'' (rCounted readInt32 readInt32),
      Assign ''Temp_Sandstorm_Happening'' rBoolean,
      Assign ''Temp_Sandstorm_TimeLeft'' rInt32,
      Assign ''Temp_Sandstorm_Severity'' rFloat32,
      Assign ''Temp_Sandstorm_IntendedSeverity'' rFloat32,
      Assign ''savedBartender'' rBoolean,
      Assign ''DD2Event_DownedInvasionT1'' rBoolean,
      Assign ''DD2Event_DownedInvasionT2'' rBoolean,
      Assign ''DD2Event_DownedInvasionT3'' rBoolean,
      IfElse (225 \<le> version world)
        [Assign ''setBG8'' rUInt8,
         Assign ''setBG9'' rUInt8,
         Assign ''setBG10'' rUInt8,
         Assign ''setBG11'' rUInt8,
         Assign ''setBG12'' rUInt8,
         Assign ''combatBookWasUsed'' rBoolean,
         Assign ''lanternNightCooldown'' rInt32,
         Assign ''lanternNightGenuine'' rBoolean,
         Assign ''lanternNightManual'' rBoolean,
         Assign ''lanternNightNextNightIsGenuine'' rBoolean,
         Assign ''treeTopsVariations'' (rCounted readInt32 readInt32),
         Assign ''forceHalloweenForToday'' rBoolean,
         Assign ''forceXMasForToday'' rBoolean,
         Assign ''savedOreTierCopper'' rInt32,
         Assign ''savedOreTierIron'' rInt32,
         Assign ''savedOreTierSilver'' rInt32,
         Assign ''savedOreTierGold'' rInt32,
         Assign ''boughtCat'' rBoolean,
         Assign ''boughtDog'' rBoolean,
         Assign ''boughtBunny'' rBoolean,
         Assign ''downedEmpressOfLight'' rBoolean,
         Assign ''downedQueenSlime'' rBoolean]
        [],
      IfElse (240 \<le> version world) [Assign ''downedDeerclops'' rBoolean] [],
      IfElse (269 \<le> version world)
        [Assign ''unlockedSlimeBlueSpawn'' rBoolean,
         Assign ''unlockedMerchantSpawn'' rBoolean,
         Assign ''unlockedDemolitionistSpawn'' rBoolean,
         Assign ''unlockedPartyGirlSpawn'' rBoolean,
         Assign ''unlockedDyeTraderSpawn'' rBoolean,
         Assign ''unlockedTruffleSpawn'' rBoolean,
         Assign ''unlockedArmsDealerSpawn'' rBoolean,
         Assign ''unlockedNurseSpawn'' rBoolean,
         Assign ''unlockedPrincessSpawn'' rBoolean,
         Assign ''combatBookVolumeTwoWasUsed'' rBoolean,
         Assign ''peddlersSatchelWasUsed'' rBoolean,
         Assign ''unlockedSlimeGreenSpawn'' rBoolean,
         Assign ''unlockedSlimeOldSpawn'' rBoolean,
         Assign ''unlockedSlimePurpleSpawn'' rBoolean,
         Assign ''unlockedSlimeRainbowSpawn'' rBoolean,
         Assign ''unlockedSlimeRedSpawn'' rBoolean,
         Assign ''unlockedSlimeYellowSpawn'' rBoolean,
         Assign ''unlockedSlimeCopperSpawn'' rBoolean,
         Assign ''fastForwardTimeToDusk'' rBoolean,
         Assign ''moondialCooldown'' rUInt8]
        []]"

definition parseHeader :: "WorldNecessary \<Rightarrow> header prd" where
  "parseHeader world = exec_all (header_fields world) Map.empty"

text \<open>
  The version gates of \<^verbatim>\<open>parseHeader\<close> of the form \<^verbatim>\<open>if (this.world.version >= g)\<close>: every
  property assigned under one, with the threshold \<open>g\<close> (the inner one where two are
  nested). \<^verbatim>\<open>afterPartyOfDoom\<close>, gated at 257 by a conditional expression, is not in the
  table.
\<close>

definition header_gates :: "(string \<times> int) list" where
  "header_gates =
     [(''gameMode'', 225), (''drunkWorld'', 225), (''getGoodWorld'', 227),
      (''getTenthAnniversaryWorld'', 238), (''dontStarveWorld'', 239),
      (''notTheBeesWorld'', 241), (''remixWorld'', 249), (''noTrapsWorld'', 266),
      (''zenithWorld'', 267), (''savedGolfer'', 225), (''setBG8'', 225), (''setBG9'', 225),
      (''setBG10'', 225), (''setBG11'', 225), (''setBG12'', 225), (''combatBookWasUsed'', 225),
      (''lanternNightCooldown'', 225), (''lanternNightGenuine'', 225),
      (''lanternNightManual'', 225), (''lanternNightNextNightIsGenuine'', 225),
      (''treeTopsVariations'', 225), (''forceHalloweenForToday'', 225),
      (''forceXMasForToday'', 225), (''savedOreTierCopper'', 225), (''savedOreTierIron'', 225),
      (''savedOreTierSilver'', 225), (''savedOreTierGold'', 225), (''boughtCat'', 225),
      (''boughtDog'', 225), (''boughtBunny'', 225), (''downedEmpressOfLight'', 225),
      (''downedQueenSlime'', 225), (''downedDeerclops'', 240),
      (''unlockedSlimeBlueSpawn'', 269), (''unlockedMerchantSpawn'', 269),
      (''unlockedDemolitionistSpawn'', 269), (''unlockedPartyGirlSpawn'', 269),
      (''unlockedDyeTraderSpawn'', 269), (''unlockedTruffleSpawn'', 269),
      (''unlockedArmsDealerSpawn'', 269), (''unlockedNurseSpawn'', 269),
      (''unlockedPrincessSpawn'', 269), (''combatBookVolumeTwoWasUsed'', 269),
      (''peddlersSatchelWasUsed'', 269), (''unlockedSlimeGreenSpawn'', 269),
      (''unlockedSlimeOldSpawn'', 269), (''unlockedSlimePurpleSpawn'', 269),
      (''unlockedSlimeRainbowSpawn'', 269), (''unlockedSlimeRedSpawn'', 269),
      (''unlockedSlimeYellowSpawn'', 269), (''unlockedSlimeCopperSpawn'', 269),
      (''fastForwardTimeToDusk'', 269), (''moondialCooldown'', 269)]"

section \<open>The tile decoder (parseTileData, parseWorldTiles)\<close>

datatype liquid = Water | Lava | Honey | Shimmer

datatype slope_shape = Half | TR | TL | BR | BL

text \<open>A tile object: every property is optional, \<open>None\<close> when it was never assigned.\<close>

record Tile =
  blockId :: "int option"
  frameX :: "int option"
  frameY :: "int option"
  blockColor :: "int option"
  wallId :: "int option"
  wallColor :: "int option"
  liquidAmount :: "int option"
  liquidType :: "liquid option"
  wireRed :: "bool option"
  wireBlue :: "bool option"
  wireGreen :: "bool option"
  wireYellow :: "bool option"
  slope :: "slope_shape option"
  actuator :: "bool option"
  actuated :: "bool option"
  invisibleBlock :: "bool option"
  invisibleWall :: "bool option"
  fullBrightBlock :: "bool option"
  fullBrightWall :: "bool option"

definition emptyTile :: Tile where
  "emptyTile =
     \<lparr>blockId = None, frameX = None, frameY = None, blockColor = None, wallId = None,
      wallColor = None, liquidAmount = None, liquidType = None, wireRed = None,
      wireBlue = None, wireGreen = None, wireYellow = None, slope = None, actuator = None,
      actuated = None, invisibleBlock = None, invisibleWall = None, fullBrightBlock = None,
      fullBrightWall = None\<rparr>"

text \<open>
  The flag chain: \<^verbatim>\<open>flags2\<close>, \<^verbatim>\<open>flags3\<close> and \<^verbatim>\<open>flags4\<close> stay \<^verbatim>\<open>undefined\<close> (\<open>None\<close>) unless
  bit 0 of the byte before asks for them.
\<close>

definition tileFlags :: "(int \<times> int option \<times> int option \<times> int option) rd" where
  "tileFlags =
     thenDo readUInt8 (\<lambda>flags1.
       if flags1 AND 1 \<noteq> 0
       then thenDo readUInt8 (\<lambda>flags2.
              if flags2 AND 1 \<noteq> 0
              then thenDo readUInt8 (\<lambda>flags3.
                     if flags3 AND 1 \<noteq> 0
                     then thenDo readUInt8 (\<lambda>flags4. ret (flags1, Some flags2, Some flags3, Some flags4))
                     else ret (flags1, Some flags2, Some flags3, None))
              else ret (flags1, Some flags2, None, None))
       else ret (flags1, None, None, None))"

text \<open>\<^verbatim>\<open>flags3 && (flags3 & m)\<close>: false when \<^verbatim>\<open>flags3\<close> is undefined or 0.\<close>

definition flag_set :: "int option \<Rightarrow> int \<Rightarrow> bool" where
  "flag_set f m = (case f of None \<Rightarrow> False | Some v \<Rightarrow> v \<noteq> 0 \<and> v AND m \<noteq> 0)"

text \<open>\<^verbatim>\<open>this.world.importants[id]\<close>, undefined (falsy) outside the array.\<close>

definition important :: "WorldNecessary \<Rightarrow> int \<Rightarrow> bool" where
  "important world bid = (0 \<le> bid \<and> nat bid < length (importants world) \<and> importants world ! nat bid)"

text \<open>The block of \<^verbatim>\<open>if (flags1 & 2)\<close>.\<close>

definition tileBlock :: "WorldNecessary \<Rightarrow> int \<Rightarrow> int option \<Rightarrow> Tile \<Rightarrow> Tile rd" where
  "tileBlock world flags1 flags3 tile =
     (if flags1 AND 2 \<noteq> 0
      then thenDo (if flags1 AND 32 \<noteq> 0 then readUInt16 else readUInt8) (\<lambda>bid.
           thenDo (if important world bid
                   then thenDo readInt16 (\<lambda>fx.
                        thenDo readInt16 (\<lambda>fy.
                          ret (tile\<lparr>blockId := Some bid, frameX := Some fx,
                                    frameY := Some (if bid = 144 then 0 else fy)\<rparr>)))
                   else ret (tile\<lparr>blockId := Some bid\<rparr>)) (\<lambda>tile1.
           if flag_set flags3 8
           then thenDo readUInt8 (\<lambda>c. ret (tile1\<lparr>blockColor := Some c\<rparr>))
           else ret tile1))
      else ret tile)"

text \<open>The block of \<^verbatim>\<open>if (flags1 & 4)\<close>.\<close>

definition tileWall :: "int \<Rightarrow> int option \<Rightarrow> Tile \<Rightarrow> Tile rd" where
  "tileWall flags1 flags3 tile =
     (if flags1 AND 4 \<noteq> 0
      then thenDo readUInt8 (\<lambda>w.
           if flag_set flags3 16
           then thenDo readUInt8 (\<lambda>c. ret (tile\<lparr>wallId := Some w, wallColor := Some c\<rparr>))
           else ret (tile\<lparr>wallId := Some w\<rparr>))
      else ret tile)"

text \<open>
  \<^verbatim>\<open>const liquidType = (flags1 & 24) >> 3; if (liquidType) { ... }\<close>. The \<^verbatim>\<open>switch\<close> has the
  cases 1, 2 and 3 and no default.
\<close>

definition tileLiquid :: "int \<Rightarrow> int option \<Rightarrow> Tile \<Rightarrow> Tile rd" where
  "tileLiquid flags1 flags3 tile =
     (let lt = drop_bit 3 (flags1 AND 24)
      in if lt \<noteq> 0
         then thenDo readUInt8 (\<lambda>a.
                ret (tile\<lparr>liquidAmount := Some a,
                          liquidType :=
                            (if flag_set flags3 128 then Some Shimmer
                             else if lt = 1 then Some Water
                             else if lt = 2 then Some Lava
                             else if lt = 3 then Some Honey
                             else liquidType tile)\<rparr>))
         else ret tile)"

text \<open>The block of \<^verbatim>\<open>if (flags1 > 1)\<close>.\<close>

definition tileLayers :: "WorldNecessary \<Rightarrow> int \<Rightarrow> int option \<Rightarrow> Tile \<Rightarrow> Tile rd" where
  "tileLayers world flags1 flags3 tile =
     (if flags1 > 1
      then thenDo (tileBlock world flags1 flags3 tile) (\<lambda>tile1.
           thenDo (tileWall flags1 flags3 tile1) (\<lambda>tile2.
           tileLiquid flags1 flags3 tile2))
      else ret tile)"

text \<open>The assignments under \<^verbatim>\<open>if (flags2)\<close>, \<^verbatim>\<open>if (flags3)\<close> and \<^verbatim>\<open>if (flags4)\<close> that read nothing.\<close>

definition tileWires :: "int \<Rightarrow> Tile \<Rightarrow> Tile" where
  "tileWires flags2 tile =
     (let t1 = (if flags2 AND 2 \<noteq> 0 then tile\<lparr>wireRed := Some True\<rparr> else tile);
          t2 = (if flags2 AND 4 \<noteq> 0 then t1\<lparr>wireBlue := Some True\<rparr> else t1);
          t3 = (if flags2 AND 8 \<noteq> 0 then t2\<lparr>wireGreen := Some True\<rparr> else t2);
          sl = drop_bit 4 (flags2 AND 112)
      in if sl = 1 then t3\<lparr>slope := Some Half\<rparr>
         else if sl = 2 then t3\<lparr>slope := Some TR\<rparr>
         else if sl = 3 then t3\<lparr>slope := Some TL\<rparr>
         else if sl = 4 then t3\<lparr>slope := Some BR\<rparr>
         else if sl = 5 then t3\<lparr>slope := Some BL\<rparr>
         else t3)"

definition tileActuators :: "int \<Rightarrow> Tile \<Rightarrow> Tile" where
  "tileActuators flags3 tile =
     (let t1 = (if flags3 AND 2 \<noteq> 0 then tile\<lparr>actuator := Some True\<rparr> else tile);
          t2 = (if flags3 AND 4 \<noteq> 0 then t1\<lparr>actuated := Some True\<rparr> else t1)
      in if flags3 AND 32 \<noteq> 0 then t2\<lparr>wireYellow := Some True\<rparr> else t2)"

definition tilePaint :: "int \<Rightarrow> Tile \<Rightarrow> Tile" where
  "tilePaint flags4 tile =
     (let t1 = (if flags4 AND 2 \<noteq> 0 then tile\<lparr>invisibleBlock := Some True\<rparr> else tile);
          t2 = (if flags4 AND 4 \<noteq> 0 then t1\<lparr>invisibleWall := Some True\<rparr> else t1);
          t3 = (if flags4 AND 8 \<noteq> 0 then t2\<lparr>fullBrightBlock := Some True\<rparr> else t2)
      in if flags4 AND 16 \<noteq> 0 then t3\<lparr>fullBrightWall := Some True\<rparr> else t3)"

text \<open>
  \<^verbatim>\<open>if (flags3 & 64) tile.wallId = (this.readUInt8() << 8) | (tile.wallId ?? 0);\<close>
\<close>

definition tileWallHigh :: "int \<Rightarrow> Tile \<Rightarrow> Tile rd" where
  "tileWallHigh flags3 tile =
     (if flags3 AND 64 \<noteq> 0
      then thenDo readUInt8 (\<lambda>hi.
             ret (tile\<lparr>wallId := Some (push_bit 8 hi OR (case wallId tile of None \<Rightarrow> 0 | Some lo \<Rightarrow> lo))\<rparr>))
      else ret tile)"

text \<open>
  The block of \<^verbatim>\<open>if (flags2)\<close>: a flag byte that is undefined or 0 is falsy, and its block
  is skipped.
\<close>

definition tileExtras :: "int option \<Rightarrow> int option \<Rightarrow> int option \<Rightarrow> Tile \<Rightarrow> Tile rd" where
  "tileExtras flags2 flags3 flags4 tile =
     (case flags2 of
        None \<Rightarrow> ret tile
      | Some f2 \<Rightarrow>
          if f2 = 0 then ret tile
          else (case flags3 of
                  None \<Rightarrow> ret (tileWires f2 tile)
                | Some f3 \<Rightarrow>
                    if f3 = 0 then ret (tileWires f2 tile)
                    else thenDo (tileWallHigh f3 (tileActuators f3 (tileWires f2 tile))) (\<lambda>tile1.
                           case flags4 of
                             None \<Rightarrow> ret tile1
                           | Some f4 \<Rightarrow> if f4 = 0 then ret tile1 else ret (tilePaint f4 tile1))))"

text \<open>
  \<^verbatim>\<open>switch ((flags1 & 192) >> 6) { case 1: this.RLE = this.readUInt8(); break; case 2: this.RLE = this.readInt16(); break; }\<close>
\<close>

definition set_RLE :: "int \<Rightarrow> unit rd" where
  "set_RLE v p = (Inr (), p\<lparr>RLE := v\<rparr>)"

definition tileRLE :: "int \<Rightarrow> unit rd" where
  "tileRLE flags1 =
     (let k = drop_bit 6 (flags1 AND 192)
      in if k = 1 then thenDo readUInt8 set_RLE
         else if k = 2 then thenDo readInt16 set_RLE
         else ret ())"

definition parseTileData :: "WorldNecessary \<Rightarrow> Tile rd" where
  "parseTileData world =
     thenDo tileFlags (\<lambda>(flags1, flags2, flags3, flags4).
     thenDo (tileLayers world flags1 flags3 emptyTile) (\<lambda>tile1.
     thenDo (tileExtras flags2 flags3 flags4 tile1) (\<lambda>tile2.
     thenDo (tileRLE flags1) (\<lambda>_. ret tile2))))"

subsection \<open>The grid\<close>

text \<open>
  A column is a JavaScript array: \<^verbatim>\<open>new Array(height)\<close> starts it with \<open>height\<close> empty slots
  (\<open>None\<close>), a write past its end lengthens it, a read past its end gives \<^verbatim>\<open>undefined\<close>.
  \<^verbatim>\<open>new Array(n)\<close> throws unless \<open>n\<close> is an integer from 0 to \<open>2^32 - 1\<close>.
\<close>

definition js_set :: "'a option list \<Rightarrow> nat \<Rightarrow> 'a option \<Rightarrow> 'a option list" where
  "js_set xs i v =
     (if i < length xs then xs[i := v] else xs @ replicate (i - length xs) None @ [v])"

definition js_get :: "'a option list \<Rightarrow> nat \<Rightarrow> 'a option" where
  "js_get xs i = (if i < length xs then xs ! i else None)"

definition array_length_ok :: "int \<Rightarrow> bool" where
  "array_length_ok n = (0 \<le> n \<and> n < 2 ^ 32)"

text \<open>
  \<^verbatim>\<open>while (this.RLE > 0) { data[x][y + 1] = data[x][y]; y++; this.RLE--; }\<close>
\<close>

function copy_run :: "nat \<Rightarrow> Tile option list \<Rightarrow> parser \<Rightarrow> nat \<times> Tile option list \<times> parser" where
  "copy_run y col p =
     (if RLE p > 0
      then copy_run (y + 1) (js_set col (y + 1) (js_get col y)) (p\<lparr>RLE := RLE p - 1\<rparr>)
      else (y, col, p))"
  by pat_completeness auto
termination
  by (relation "measure (\<lambda>(y, col, p). nat (RLE p))") auto

declare copy_run.simps [simp del]

lemma copy_run_row: "y \<le> fst (copy_run y col p)"
proof (induction y col p rule: copy_run.induct)
  case (1 y col p)
  show ?case
  proof (cases "RLE p > 0")
    case True
    with "1" have "y + 1 \<le> fst (copy_run y col p)"
      by (simp add: copy_run.simps [of y col p])
    then show ?thesis by simp
  next
    case False
    then show ?thesis by (simp add: copy_run.simps [of y col p])
  qed
qed

text \<open>
  \<^verbatim>\<open>for (let y = 0; y < this.world.height; y++) { data[x][y] = this.parseTileData(); while ... }\<close>
\<close>

function fill_column :: "WorldNecessary \<Rightarrow> nat \<Rightarrow> Tile option list \<Rightarrow> Tile option list rd" where
  "fill_column world y col p =
     (if int y < height world
      then (case parseTileData world p of
              (Inl e, p1) \<Rightarrow> (Inl e, p1)
            | (Inr tile, p1) \<Rightarrow>
                (case copy_run y (js_set col y (Some tile)) p1 of
                   (y2, col2, p2) \<Rightarrow> fill_column world (y2 + 1) col2 p2))
      else (Inr col, p))"
  by pat_completeness auto
termination
  apply (relation "measure (\<lambda>(world, y, col, p). nat (height world - int y))")
   apply simp
  subgoal premises prems for world y col p x1 x2 tile y2 xa col2 p2
    using prems copy_run_row [of y "js_set col y (Some tile)" x2]
    by (simp add: prems(4) [symmetric])
  done

declare fill_column.simps [simp del]

text \<open>
  \<^verbatim>\<open>this.RLE = 0; const data = new Array(this.world.width); for (let x = 0; x < this.world.width; x++) { data[x] = new Array(this.world.height); ... } return data;\<close>
  The columns are assigned in the order of \<open>x\<close>, so the array returned is the list of
  the columns filled.
\<close>

function fill_columns :: "WorldNecessary \<Rightarrow> nat \<Rightarrow> Tile option list list \<Rightarrow> Tile option list list rd" where
  "fill_columns world x data p =
     (if int x < width world
      then (if array_length_ok (height world)
            then (case fill_column world 0 (replicate (nat (height world)) None) p of
                    (Inl e, p1) \<Rightarrow> (Inl e, p1)
                  | (Inr col, p1) \<Rightarrow> fill_columns world (x + 1) (data @ [col]) p1)
            else (Inl InvalidArrayLength, p))
      else (Inr data, p))"
  by pat_completeness auto
termination
  by (relation "measure (\<lambda>(world, x, data, p). nat (width world - int x))") auto

declare fill_columns.simps [simp del]

definition parseWorldTiles :: "WorldNecessary \<Rightarrow> Tile option list list rd" where
  "parseWorldTiles world p =
     (if array_length_ok (width world)
      then fill_columns world 0 [] (p\<lparr>RLE := 0\<rparr>)
      else (Inl InvalidArrayLength, p\<lparr>RLE := 0\<rparr>))"

subsection \<open>The grid decode with its records listed\<close>

text \<open>
  To speak of the physical records, the same loops once more, returning beside the grid
  the list of the records decoded, in order: for each call of \<^verbatim>\<open>parseTileData\<close> the
  column \<open>x\<close> and row \<open>y\<close> it was decoded at, the tile it returned and the value of
  \<^verbatim>\<open>this.RLE\<close> it left, which is what the \<^verbatim>\<open>while\<close> loop then consumes. That value is
  positive only when this record set it: every \<^verbatim>\<open>while\<close> loop leaves it at 0 or below.
\<close>

type_synonym run_record = "nat \<times> nat \<times> Tile \<times> int"

function fill_column_log ::
  "WorldNecessary \<Rightarrow> nat \<Rightarrow> nat \<Rightarrow> Tile option list \<Rightarrow> run_record list \<Rightarrow>
     (Tile option list \<times> run_record list) rd" where
  "fill_column_log world x y col recs p =
     (if int y < height world
      then (case parseTileData world p of
              (Inl e, p1) \<Rightarrow> (Inl e, p1)
            | (Inr tile, p1) \<Rightarrow>
                (case copy_run y (js_set col y (Some tile)) p1 of
                   (y2, col2, p2) \<Rightarrow>
                     fill_column_log world x (y2 + 1) col2 (recs @ [(x, y, tile, RLE p1)]) p2))
      else (Inr (col, recs), p))"
  by pat_completeness auto
termination
  apply (relation "measure (\<lambda>(world, x, y, col, recs, p). nat (height world - int y))")
   apply simp
  subgoal premises prems for world x y col recs p x1 x2 tile y2 xa col2 p2
    using prems copy_run_row [of y "js_set col y (Some tile)" x2]
    by (simp add: prems(4) [symmetric])
  done

declare fill_column_log.simps [simp del]

function fill_columns_log ::
  "WorldNecessary \<Rightarrow> nat \<Rightarrow> Tile option list list \<Rightarrow> run_record list \<Rightarrow>
     (Tile option list list \<times> run_record list) rd" where
  "fill_columns_log world x data recs p =
     (if int x < width world
      then (if array_length_ok (height world)
            then (case fill_column_log world x 0 (replicate (nat (height world)) None) recs p of
                    (Inl e, p1) \<Rightarrow> (Inl e, p1)
                  | (Inr (col, recs1), p1) \<Rightarrow> fill_columns_log world (x + 1) (data @ [col]) recs1 p1)
            else (Inl InvalidArrayLength, p))
      else (Inr (data, recs), p))"
  by pat_completeness auto
termination
  by (relation "measure (\<lambda>(world, x, data, recs, p). nat (width world - int x))") auto

declare fill_columns_log.simps [simp del]

definition parseWorldTiles_log :: "WorldNecessary \<Rightarrow> (Tile option list list \<times> run_record list) rd" where
  "parseWorldTiles_log world p =
     (if array_length_ok (width world)
      then fill_columns_log world 0 [] [] (p\<lparr>RLE := 0\<rparr>)
      else (Inl InvalidArrayLength, p\<lparr>RLE := 0\<rparr>))"

text \<open>
  What the run-length invariant says of a grid and its records: every record's tile
  stands at its own cell and at the \<open>r\<close> cells below it in its column (none below when
  \<open>r\<close> is not positive); a run fits when it ends inside its column; the runs' total
  counts a count that is not positive as 0.
\<close>

definition runs_fit :: "WorldNecessary \<Rightarrow> run_record list \<Rightarrow> bool" where
  "runs_fit world recs = list_all (\<lambda>(x, y, t, r). int y + r < height world) recs"

definition runs_total :: "run_record list \<Rightarrow> int" where
  "runs_total recs = sum_list (map (\<lambda>(x, y, t, r). max 0 r) recs)"

definition runs_copied :: "Tile option list list \<Rightarrow> run_record list \<Rightarrow> bool" where
  "runs_copied data recs =
     list_all (\<lambda>(x, y, t, r). x < length data \<and> list_all (\<lambda>k. js_get (data ! x) (y + k) = Some t) [0..<Suc (nat r)]) recs"

text \<open>Dropping the list of records from a result.\<close>

definition forget_log :: "(error + ('a \<times> 'b)) \<times> parser \<Rightarrow> (error + 'a) \<times> parser" where
  "forget_log r = (case r of (Inl e, p) \<Rightarrow> (Inl e, p) | (Inr (a, l), p) \<Rightarrow> (Inr a, p))"

section \<open>The decode (parse)\<close>

text \<open>
  \<^verbatim>\<open>parse(options)\<close> is called on the parser as \<^verbatim>\<open>new TerrariaWorldParser()\<close> and \<^verbatim>\<open>loadFile\<close>
  leave it, so the model takes the file's bytes. Of the options it keeps the section names
  and whether a progress callback was supplied; the callback is the caller's function, of
  which the model keeps the percentages it is handed (it is taken to return, and not to
  touch the parser).
\<close>

record parse_options =
  sections :: "string list"
  progressCallback :: bool

text \<open>
  \<^verbatim>\<open>s.toLowerCase()\<close> on the letters A to Z. Other characters are left alone: a name that
  holds one is neither \<^verbatim>\<open>header\<close> nor \<^verbatim>\<open>tiles\<close> before or after lowering.
\<close>

definition toLowerCase :: "string \<Rightarrow> string" where
  "toLowerCase s =
     map (\<lambda>c. if 65 \<le> (of_char c :: nat) \<and> (of_char c :: nat) \<le> 90
              then char_of (of_char c + (32 :: nat)) else c) s"

text \<open>
  The accessor that \<^verbatim>\<open>Object.defineProperty\<close> installs on \<^verbatim>\<open>offset\<close> when a callback was
  supplied: \<^verbatim>\<open>onePercentSize = Math.floor(this.buffer.byteLength / 100)\<close>,
  \<^verbatim>\<open>nextPercentSize = onePercentSize\<close>, \<^verbatim>\<open>percent = 0\<close>, the offset kept.
\<close>

definition install_progress :: "parser \<Rightarrow> parser" where
  "install_progress p =
     p\<lparr>progress := Some \<lparr>onePercentSize = int (length (buffer p)) div 100,
                           nextPercentSize = int (length (buffer p)) div 100,
                           percent = 0\<rparr>\<rparr>"

text \<open>\<^verbatim>\<open>this.world.pointers[idx]\<close>, undefined past the end of the array.\<close>

definition pointer :: "WorldNecessary \<Rightarrow> nat \<Rightarrow> offs" where
  "pointer world idx = (if idx < length (pointers world) then At (pointers world ! idx) else NaN)"

text \<open>
  One round of the loop over \<^verbatim>\<open>sectionMap\<close>:
  \<^verbatim>\<open>if (this.options.sections.includes(name)) { this.offset = this.world.pointers[idx]; data[name] = fn(); }\<close>.
  The property is absent (\<open>None\<close>) when the section was not asked for.
\<close>

definition parse_section :: "string list \<Rightarrow> string \<Rightarrow> nat \<Rightarrow> WorldNecessary \<Rightarrow> 'a prd \<Rightarrow> 'a option prd" where
  "parse_section secs name idx world fn =
     (if name \<in> set secs
      then thenDoP (lift (jumpTo (pointer world idx))) (\<lambda>_.
           thenDoP fn (\<lambda>v. lift (ret (Some v))))
      else lift (ret None))"

text \<open>The object \<^verbatim>\<open>data\<close> that \<^verbatim>\<open>parse\<close> returns.\<close>

record decoded =
  header_part :: "header option"
  tiles_part :: "Tile option list list option"

text \<open>
  \<^verbatim>\<open>parse\<close>. The options object is replaced by one without \<^verbatim>\<open>ignoreBounds\<close>, so the reads are
  strict. The sections are decoded in the order of \<^verbatim>\<open>sectionMap\<close>, \<^verbatim>\<open>header\<close> (pointer 1)
  before \<^verbatim>\<open>tiles\<close> (pointer 2), whatever the order of the names asked for.
\<close>

definition parse :: "parse_options \<Rightarrow> byte list \<Rightarrow> ((error + decoded) \<times> parser) option" where
  "parse opts buf =
     (let secs = map toLowerCase (sections opts);
          p1 = (new_parser buf)\<lparr>ignoreBounds := False\<rparr>;
          p2 = (if progressCallback opts then install_progress p1 else p1)
      in thenDoP parseNecessaryData (\<lambda>world.
         thenDoP (parse_section secs ''header'' 1 world (parseHeader world)) (\<lambda>h.
         thenDoP (parse_section secs ''tiles'' 2 world (lift (parseWorldTiles world))) (\<lambda>t.
         lift (ret \<lparr>header_part = h, tiles_part = t\<rparr>)))) p2)"

text \<open>
  For the proofs: a parser without its accessor and without the record of the calls of
  the callback. A quiet method does the same on a parser and on the parser without the
  accessor: the same value or error (or no return), and the same parser up to the
  accessor.
\<close>

definition core :: "parser \<Rightarrow> parser" where
  "core p = p\<lparr>progress := None, reported := []\<rparr>"

definition quiet :: "'a rd \<Rightarrow> bool" where
  "quiet m \<longleftrightarrow> (\<forall>p. m (core p) = (fst (m p), core (snd (m p))))"

definition quietP :: "'a prd \<Rightarrow> bool" where
  "quietP m \<longleftrightarrow> (\<forall>p. m (core p) = map_option (\<lambda>(r, q). (r, core q)) (m p))"

text \<open>A property of every right-hand side of a statement, in both branches of a conditional.\<close>

fun all_reads :: "(hval prd \<Rightarrow> bool) \<Rightarrow> stmt \<Rightarrow> bool"
  and all_reads_list :: "(hval prd \<Rightarrow> bool) \<Rightarrow> stmt list \<Rightarrow> bool" where
  "all_reads P (Assign name rd) = P rd"
| "all_reads P (Derive name f) = True"
| "all_reads P (IfElse c ss1 ss2) = (all_reads_list P ss1 \<and> all_reads_list P ss2)"
| "all_reads_list P [] = True"
| "all_reads_list P (s # ss) = (all_reads P s \<and> all_reads_list P ss)"

section \<open>The rasterizer (WldHandler.doConvert)\<close>

text \<open>
  The colour tables, transcribed entry by entry. An object keyed by numbers is an
  association list here; no key occurs twice.
\<close>

type_synonym rgb = "int \<times> int \<times> int"

definition TILE_COLORS :: "(int \<times> rgb) list" where
  "TILE_COLORS =
    [(0, (151, 107, 75)), (1, (128, 128, 128)), (2, (28, 216, 94)), (3, (27, 197, 109)),
     (4, (253, 221, 3)), (5, (151, 107, 75)), (6, (140, 101, 80)), (7, (150, 67, 22)),
     (8, (185, 164, 23)), (9, (185, 194, 195)), (10, (119, 105, 79)), (11, (119, 105, 79)),
     (12, (174, 24, 69)), (13, (133, 213, 247)), (14, (191, 142, 111)), (15, (191, 142, 111)),
     (16, (140, 130, 116)), (17, (144, 148, 144)), (18, (191, 142, 111)),
     (19, (191, 142, 111)), (20, (163, 116, 81)), (21, (233, 207, 94)), (22, (98, 95, 167)),
     (23, (141, 137, 223)), (24, (122, 116, 218)), (25, (109, 90, 128)), (26, (119, 101, 125)),
     (27, (226, 196, 49)), (28, (151, 79, 80)), (29, (175, 105, 128)), (30, (170, 120, 84)),
     (31, (141, 120, 168)), (32, (151, 135, 183)), (33, (253, 221, 3)), (34, (235, 166, 135)),
     (35, (197, 216, 219)), (36, (230, 89, 92)), (37, (104, 86, 84)), (38, (144, 144, 144)),
     (39, (181, 62, 59)), (40, (146, 81, 68)), (41, (66, 84, 109)), (42, (251, 235, 127)),
     (43, (84, 100, 63)), (44, (107, 68, 99)), (45, (185, 164, 23)), (46, (185, 194, 195)),
     (47, (150, 67, 22)), (48, (128, 128, 128)), (49, (43, 143, 255)), (50, (170, 48, 114)),
     (51, (192, 202, 203)), (52, (23, 177, 76)), (53, (255, 218, 56)), (54, (200, 246, 254)),
     (55, (191, 142, 111)), (56, (43, 40, 84)), (57, (68, 68, 76)), (58, (142, 66, 66)),
     (59, (92, 68, 73)), (60, (143, 215, 29)), (61, (135, 196, 26)), (62, (121, 176, 24)),
     (63, (110, 140, 182)), (64, (196, 96, 114)), (65, (56, 150, 97)), (66, (160, 118, 58)),
     (67, (140, 58, 166)), (68, (125, 191, 197)), (69, (190, 150, 92)), (70, (93, 127, 255)),
     (71, (182, 175, 130)), (72, (182, 175, 130)), (73, (27, 197, 109)), (74, (96, 197, 27)),
     (75, (36, 36, 36)), (76, (142, 66, 66)), (77, (238, 85, 70)), (78, (121, 110, 97)),
     (79, (191, 142, 111)), (80, (73, 120, 17)), (81, (245, 133, 191)), (82, (255, 120, 0)),
     (83, (255, 120, 0)), (84, (255, 120, 0)), (85, (192, 192, 192)), (86, (191, 142, 111)),
     (87, (191, 142, 111)), (88, (191, 142, 111)), (89, (191, 142, 111)),
     (90, (144, 148, 144)), (91, (13, 88, 130)), (92, (213, 229, 237)), (93, (253, 221, 3)),
     (94, (191, 142, 111)), (95, (255, 162, 31)), (96, (144, 148, 144)), (97, (144, 148, 144)),
     (98, (253, 221, 3)), (99, (144, 148, 144)), (100, (253, 221, 3)), (101, (191, 142, 111)),
     (102, (229, 212, 73)), (103, (141, 98, 77)), (104, (191, 142, 111)),
     (105, (144, 148, 144)), (106, (191, 142, 111)), (107, (11, 80, 143)),
     (108, (91, 169, 169)), (109, (78, 193, 227)), (110, (48, 186, 135)), (111, (128, 26, 52)),
     (112, (103, 98, 122)), (113, (48, 208, 234)), (114, (191, 142, 111)),
     (115, (33, 171, 207)), (116, (238, 225, 218)), (117, (181, 172, 190)),
     (118, (238, 225, 218)), (119, (107, 92, 108)), (120, (92, 68, 73)), (121, (11, 80, 143)),
     (122, (91, 169, 169)), (123, (106, 107, 118)), (124, (73, 51, 36)),
     (125, (141, 175, 255)), (126, (159, 209, 229)), (127, (128, 204, 230)),
     (128, (191, 142, 111)), (129, (255, 117, 224)), (130, (160, 160, 160)),
     (131, (52, 52, 52)), (132, (144, 148, 144)), (133, (231, 53, 56)), (134, (166, 187, 153)),
     (135, (253, 114, 114)), (136, (213, 203, 204)), (137, (144, 148, 144)),
     (138, (96, 96, 96)), (139, (191, 142, 111)), (140, (98, 95, 167)), (141, (192, 59, 59)),
     (142, (144, 148, 144)), (143, (144, 148, 144)), (144, (144, 148, 144)),
     (145, (192, 30, 30)), (146, (43, 192, 30)), (147, (211, 236, 241)),
     (148, (181, 211, 210)), (149, (220, 50, 50)), (150, (128, 26, 52)), (151, (190, 171, 94)),
     (152, (128, 133, 184)), (153, (239, 141, 126)), (154, (190, 171, 94)),
     (155, (131, 162, 161)), (156, (170, 171, 157)), (157, (104, 100, 126)),
     (158, (145, 81, 85)), (159, (148, 133, 98)), (160, (0, 0, 200)), (161, (144, 195, 232)),
     (162, (184, 219, 240)), (163, (174, 145, 214)), (164, (218, 182, 204)),
     (165, (100, 100, 100)), (166, (129, 125, 93)), (167, (62, 82, 114)),
     (168, (132, 157, 127)), (169, (152, 171, 198)), (170, (228, 219, 162)),
     (171, (33, 135, 85)), (172, (181, 194, 217)), (173, (253, 221, 3)), (174, (253, 221, 3)),
     (175, (129, 125, 93)), (176, (132, 157, 127)), (177, (152, 171, 198)),
     (178, (255, 0, 255)), (179, (49, 134, 114)), (180, (126, 134, 49)), (181, (134, 59, 49)),
     (182, (43, 86, 140)), (183, (121, 49, 134)), (184, (100, 100, 100)),
     (185, (149, 149, 115)), (186, (255, 0, 255)), (187, (255, 0, 255)), (188, (73, 120, 17)),
     (189, (223, 255, 255)), (190, (182, 175, 130)), (191, (151, 107, 75)),
     (192, (26, 196, 84)), (193, (56, 121, 255)), (194, (157, 157, 107)), (195, (134, 22, 34)),
     (196, (147, 144, 178)), (197, (97, 200, 225)), (198, (62, 61, 52)), (199, (208, 80, 80)),
     (200, (216, 152, 144)), (201, (203, 61, 64)), (202, (213, 178, 28)), (203, (128, 44, 45)),
     (204, (125, 55, 65)), (205, (186, 50, 52)), (206, (124, 175, 201)),
     (207, (144, 148, 144)), (208, (88, 105, 118)), (209, (144, 148, 144)),
     (210, (192, 59, 59)), (211, (191, 233, 115)), (212, (144, 148, 144)),
     (213, (137, 120, 67)), (214, (103, 103, 103)), (215, (254, 121, 2)),
     (216, (191, 142, 111)), (217, (144, 148, 144)), (218, (144, 148, 144)),
     (219, (144, 148, 144)), (220, (144, 148, 144)), (221, (239, 90, 50)),
     (222, (231, 96, 228)), (223, (57, 85, 101)), (224, (107, 132, 139)),
     (225, (227, 125, 22)), (226, (141, 56, 0)), (227, (255, 255, 255)),
     (228, (144, 148, 144)), (229, (255, 156, 12)), (230, (131, 79, 13)),
     (231, (224, 194, 101)), (232, (145, 81, 85)), (233, (255, 0, 255)), (234, (53, 44, 41)),
     (235, (214, 184, 46)), (236, (149, 232, 87)), (237, (255, 241, 51)),
     (238, (225, 128, 206)), (239, (224, 194, 101)), (240, (99, 50, 30)), (241, (77, 74, 72)),
     (242, (99, 50, 30)), (243, (140, 179, 254)), (244, (200, 245, 253)), (245, (99, 50, 30)),
     (246, (99, 50, 30)), (247, (140, 150, 150)), (248, (219, 71, 38)), (249, (249, 52, 243)),
     (250, (76, 74, 83)), (251, (235, 150, 23)), (252, (153, 131, 44)), (253, (57, 48, 97)),
     (254, (248, 158, 92)), (255, (107, 49, 154)), (256, (154, 148, 49)), (257, (49, 49, 154)),
     (258, (49, 154, 68)), (259, (154, 49, 77)), (260, (85, 89, 118)), (261, (154, 83, 49)),
     (262, (221, 79, 255)), (263, (250, 255, 79)), (264, (79, 102, 255)), (265, (79, 255, 89)),
     (266, (255, 79, 79)), (267, (240, 240, 247)), (268, (255, 145, 79)),
     (269, (191, 142, 111)), (270, (122, 217, 232)), (271, (122, 217, 232)),
     (272, (121, 119, 101)), (273, (128, 128, 128)), (274, (190, 171, 94)),
     (275, (122, 217, 232)), (276, (122, 217, 232)), (277, (122, 217, 232)),
     (278, (122, 217, 232)), (279, (122, 217, 232)), (280, (122, 217, 232)),
     (281, (122, 217, 232)), (282, (122, 217, 232)), (283, (128, 128, 128)),
     (284, (150, 67, 22)), (285, (122, 217, 232)), (286, (122, 217, 232)),
     (287, (79, 128, 17)), (288, (122, 217, 232)), (289, (122, 217, 232)),
     (290, (122, 217, 232)), (291, (122, 217, 232)), (292, (122, 217, 232)),
     (293, (122, 217, 232)), (294, (122, 217, 232)), (295, (122, 217, 232)),
     (296, (122, 217, 232)), (297, (122, 217, 232)), (298, (122, 217, 232)),
     (299, (122, 217, 232)), (300, (144, 148, 144)), (301, (144, 148, 144)),
     (302, (144, 148, 144)), (303, (144, 148, 144)), (304, (144, 148, 144)),
     (305, (144, 148, 144)), (306, (144, 148, 144)), (307, (144, 148, 144)),
     (308, (144, 148, 144)), (309, (122, 217, 232)), (310, (122, 217, 232)),
     (311, (117, 61, 25)), (312, (204, 93, 73)), (313, (87, 150, 154)), (314, (181, 164, 125)),
     (315, (235, 114, 80)), (316, (122, 217, 232)), (317, (122, 217, 232)),
     (318, (122, 217, 232)), (319, (96, 68, 48)), (320, (203, 185, 151)), (321, (96, 77, 64)),
     (322, (198, 170, 104)), (323, (182, 141, 86)), (324, (228, 213, 173)),
     (325, (129, 125, 93)), (326, (9, 61, 191)), (327, (253, 32, 3)), (328, (200, 246, 254)),
     (329, (15, 15, 15)), (330, (226, 118, 76)), (331, (161, 172, 173)), (332, (204, 181, 72)),
     (333, (190, 190, 178)), (334, (191, 142, 111)), (335, (217, 174, 137)),
     (336, (253, 62, 3)), (337, (144, 148, 144)), (338, (85, 255, 160)),
     (339, (122, 217, 232)), (340, (96, 248, 2)), (341, (105, 74, 202)), (342, (29, 240, 255)),
     (343, (254, 202, 80)), (344, (131, 252, 245)), (345, (255, 156, 12)),
     (346, (149, 212, 89)), (347, (236, 74, 79)), (348, (44, 26, 233)), (349, (144, 148, 144)),
     (350, (55, 97, 155)), (351, (31, 31, 31)), (352, (238, 97, 94)), (353, (28, 216, 94)),
     (354, (141, 107, 89)), (355, (141, 107, 89)), (356, (233, 203, 24)),
     (357, (168, 178, 204)), (358, (122, 217, 232)), (359, (122, 217, 232)),
     (360, (122, 217, 232)), (361, (122, 217, 232)), (362, (122, 217, 232)),
     (363, (122, 217, 232)), (364, (122, 217, 232)), (365, (146, 136, 205)),
     (366, (223, 232, 233)), (367, (168, 178, 204)), (368, (50, 46, 104)),
     (369, (50, 46, 104)), (370, (127, 116, 194)), (371, (249, 101, 189)),
     (372, (252, 128, 201)), (373, (9, 61, 191)), (374, (253, 32, 3)), (375, (255, 156, 12)),
     (376, (160, 120, 92)), (377, (191, 142, 111)), (378, (160, 120, 100)),
     (379, (251, 209, 240)), (380, (191, 142, 111)), (381, (254, 121, 2)),
     (382, (28, 216, 94)), (383, (221, 136, 144)), (384, (131, 206, 12)), (385, (87, 21, 144)),
     (386, (127, 92, 69)), (387, (127, 92, 69)), (388, (127, 92, 69)), (389, (127, 92, 69)),
     (390, (253, 32, 3)), (391, (122, 217, 232)), (392, (122, 217, 232)),
     (393, (122, 217, 232)), (394, (122, 217, 232)), (395, (191, 142, 111)),
     (396, (198, 124, 78)), (397, (212, 192, 100)), (398, (100, 82, 126)), (399, (77, 76, 66)),
     (400, (96, 68, 117)), (401, (68, 60, 51)), (402, (174, 168, 186)), (403, (205, 152, 186)),
     (404, (140, 84, 60)), (405, (140, 140, 140)), (406, (120, 120, 120)),
     (407, (255, 227, 132)), (408, (85, 83, 82)), (409, (85, 83, 82)), (410, (75, 139, 166)),
     (411, (227, 46, 46)), (412, (75, 139, 166)), (413, (122, 217, 232)),
     (414, (122, 217, 232)), (415, (249, 75, 7)), (416, (0, 160, 170)), (417, (160, 87, 234)),
     (418, (22, 173, 254)), (419, (117, 125, 151)), (420, (255, 255, 255)),
     (421, (73, 70, 70)), (422, (73, 70, 70)), (423, (255, 255, 255)), (424, (146, 155, 187)),
     (425, (174, 195, 215)), (426, (77, 11, 35)), (427, (119, 22, 52)), (428, (255, 255, 255)),
     (429, (63, 63, 63)), (430, (23, 119, 79)), (431, (23, 54, 119)), (432, (119, 68, 23)),
     (433, (74, 23, 119)), (434, (78, 82, 109)), (435, (39, 168, 96)), (436, (39, 94, 168)),
     (437, (168, 121, 39)), (438, (111, 39, 168)), (439, (150, 148, 174)),
     (440, (255, 255, 255)), (441, (255, 255, 255)), (442, (3, 144, 201)),
     (443, (123, 123, 123)), (444, (191, 176, 124)), (445, (55, 55, 73)),
     (446, (255, 66, 152)), (447, (179, 132, 255)), (448, (0, 206, 180)),
     (449, (91, 186, 240)), (450, (92, 240, 91)), (451, (240, 91, 147)),
     (452, (255, 150, 181)), (453, (255, 255, 255)), (454, (174, 16, 176)),
     (455, (48, 255, 110)), (456, (179, 132, 255)), (457, (255, 255, 255)),
     (458, (211, 198, 111)), (459, (190, 223, 232)), (460, (141, 163, 181)),
     (461, (255, 222, 100)), (462, (231, 178, 28)), (463, (155, 214, 240)),
     (464, (233, 183, 128)), (465, (51, 84, 195)), (466, (205, 153, 73)),
     (467, (233, 207, 94)), (468, (255, 255, 255)), (469, (191, 142, 111)),
     (583, (113, 113, 113)), (584, (113, 113, 113)), (585, (113, 113, 113)),
     (587, (113, 113, 113)), (588, (113, 113, 113)), (589, (113, 113, 113)),
     (596, (110, 91, 77)), (616, (133, 79, 77))]"

definition WALL_COLORS :: "(int \<times> rgb) list" where
  "WALL_COLORS =
    [(0, (0, 0, 0)), (1, (53, 53, 53)), (2, (87, 60, 48)), (3, (47, 41, 53)),
     (4, (69, 50, 37)), (5, (59, 59, 59)), (6, (76, 44, 41)), (7, (46, 50, 67)),
     (8, (49, 61, 61)), (9, (75, 46, 70)), (10, (107, 91, 34)), (11, (79, 85, 86)),
     (12, (101, 57, 25)), (13, (77, 48, 43)), (14, (12, 12, 12)), (15, (49, 43, 44)),
     (16, (81, 63, 54)), (17, (46, 50, 67)), (18, (49, 61, 61)), (19, (75, 46, 70)),
     (20, (12, 12, 12)), (21, (54, 89, 98)), (22, (97, 92, 94)), (23, (56, 44, 58)),
     (24, (49, 40, 42)), (25, (18, 66, 98)), (26, (34, 64, 54)), (27, (58, 48, 42)),
     (28, (77, 70, 81)), (29, (112, 58, 68)), (30, (56, 115, 80)), (31, (94, 101, 108)),
     (32, (102, 20, 48)), (33, (48, 48, 73)), (34, (86, 83, 57)), (35, (54, 59, 82)),
     (36, (124, 70, 63)), (37, (89, 84, 55)), (38, (60, 90, 70)), (39, (89, 89, 84)),
     (40, (100, 118, 129)), (41, (57, 55, 64)), (42, (62, 25, 27)), (43, (60, 55, 44)),
     (44, (51, 51, 51)), (45, (65, 63, 57)), (46, (68, 83, 69)), (47, (66, 70, 82)),
     (48, (78, 69, 83)), (49, (81, 74, 63)), (50, (56, 66, 81)), (51, (50, 73, 59)),
     (52, (82, 59, 64)), (53, (70, 79, 81)), (54, (46, 58, 54)), (55, (56, 56, 46)),
     (56, (57, 49, 49)), (57, (45, 51, 56)), (58, (56, 48, 59)), (59, (80, 63, 55)),
     (60, (0, 49, 17)), (61, (55, 40, 28)), (62, (32, 28, 22)), (63, (25, 67, 38)),
     (64, (47, 67, 25)), (65, (25, 67, 38)), (66, (25, 67, 38)), (67, (47, 67, 25)),
     (68, (25, 67, 38)), (69, (36, 37, 57)), (70, (25, 61, 67)), (71, (82, 108, 134)),
     (72, (45, 84, 24)), (73, (211, 217, 219)), (74, (54, 60, 113)), (75, (61, 61, 44)),
     (76, (26, 51, 111)), (77, (75, 18, 22)), (78, (58, 35, 24)), (79, (36, 33, 65)),
     (80, (54, 60, 113)), (81, (101, 52, 52)), (82, (56, 19, 0)), (83, (62, 44, 45)),
     (84, (78, 105, 131)), (85, (32, 39, 45)), (86, (121, 80, 36)), (87, (28, 8, 10)),
     (88, (115, 68, 124)), (89, (129, 114, 74)), (90, (62, 86, 123)), (91, (90, 121, 94)),
     (92, (135, 62, 61)), (93, (100, 96, 103)), (94, (36, 48, 57)), (95, (48, 46, 58)),
     (96, (71, 46, 73)), (97, (76, 46, 64)), (98, (51, 63, 57)), (99, (49, 58, 64)),
     (100, (36, 48, 57)), (101, (48, 46, 58)), (102, (71, 46, 73)), (103, (76, 46, 64)),
     (104, (51, 63, 57)), (105, (49, 58, 64)), (106, (97, 72, 51)), (107, (53, 53, 53)),
     (108, (121, 80, 36)), (109, (110, 37, 19)), (110, (135, 57, 137)), (111, (33, 25, 21)),
     (112, (28, 8, 10)), (113, (160, 75, 7)), (114, (54, 42, 19)), (115, (42, 30, 53)),
     (116, (60, 34, 25)), (117, (91, 83, 64)), (118, (59, 61, 54)), (119, (47, 39, 25)),
     (120, (80, 88, 111)), (121, (186, 167, 138)), (122, (110, 119, 143)),
     (123, (138, 128, 110)), (124, (7, 48, 30)), (125, (78, 103, 70)), (126, (109, 111, 123)),
     (127, (112, 166, 226)), (128, (69, 56, 140)), (129, (72, 44, 145)), (130, (114, 85, 121)),
     (131, (104, 119, 158)), (132, (74, 74, 74)), (133, (95, 119, 191)), (134, (144, 79, 22)),
     (135, (62, 130, 138)), (136, (61, 98, 169)), (137, (183, 84, 14)), (138, (61, 57, 69)),
     (139, (74, 32, 34)), (140, (110, 100, 76)), (141, (66, 70, 60)), (142, (214, 206, 187)),
     (143, (83, 106, 99)), (144, (89, 67, 68)), (145, (120, 120, 120)), (146, (103, 55, 24)),
     (147, (77, 77, 77)), (148, (229, 218, 161)), (149, (82, 70, 65)), (150, (81, 69, 62)),
     (151, (103, 76, 36)), (152, (103, 76, 36)), (153, (255, 116, 63)), (154, (191, 63, 255)),
     (155, (219, 219, 232)), (156, (63, 255, 71)), (157, (118, 63, 37)), (158, (81, 37, 118)),
     (159, (64, 67, 89)), (160, (37, 118, 52)), (161, (118, 37, 58)), (162, (37, 37, 118)),
     (163, (118, 113, 37)), (164, (255, 63, 63)), (165, (63, 81, 255)), (166, (239, 255, 63)),
     (167, (78, 77, 58)), (168, (84, 97, 84)), (169, (92, 105, 90)), (170, (93, 68, 47)),
     (171, (84, 60, 39)), (172, (168, 125, 0)), (173, (49, 105, 25)), (174, (69, 48, 54)),
     (175, (33, 50, 188)), (176, (75, 128, 148)), (177, (72, 50, 46)), (178, (120, 127, 143)),
     (179, (124, 131, 148)), (180, (15, 16, 45)), (181, (31, 31, 74)), (182, (57, 55, 99)),
     (183, (120, 127, 143)), (184, (15, 16, 45)), (185, (61, 61, 61)), (186, (55, 23, 100)),
     (187, (126, 68, 43)), (188, (63, 47, 63)), (189, (65, 51, 77)), (190, (67, 72, 59)),
     (191, (60, 38, 67)), (192, (123, 56, 47)), (193, (87, 24, 26)), (194, (102, 64, 53)),
     (195, (122, 46, 54)), (196, (99, 70, 55)), (197, (102, 73, 57)), (198, (92, 65, 49)),
     (199, (106, 75, 58)), (200, (81, 33, 83)), (201, (96, 79, 99)), (202, (124, 42, 104)),
     (203, (111, 54, 112)), (204, (75, 68, 55)), (205, (83, 83, 59)), (206, (39, 67, 44)),
     (207, (77, 77, 55)), (208, (92, 36, 28)), (209, (96, 48, 39)), (210, (108, 44, 26)),
     (211, (106, 42, 38)), (212, (70, 69, 61)), (213, (57, 60, 57)), (214, (69, 57, 59)),
     (215, (71, 60, 66)), (216, (148, 93, 52)), (217, (51, 38, 65)), (218, (43, 24, 22)),
     (219, (78, 73, 114)), (220, (54, 36, 68)), (221, (73, 18, 12)), (222, (58, 47, 81)),
     (223, (115, 65, 34)), (224, (103, 112, 104)), (225, (76, 71, 56)), (226, (133, 124, 66)),
     (227, (83, 101, 112)), (228, (139, 0, 64)), (229, (80, 12, 162)), (230, (0, 93, 81)),
     (231, (81, 68, 62)), (232, (37, 47, 57)), (233, (72, 53, 55)), (234, (103, 46, 48)),
     (235, (126, 68, 43)), (236, (63, 35, 34)), (237, (57, 34, 33)), (238, (45, 46, 54)),
     (239, (43, 52, 56)), (240, (62, 45, 33)), (241, (146, 95, 53)), (242, (78, 69, 55)),
     (243, (23, 52, 86)), (244, (58, 35, 24)), (245, (74, 74, 74)), (246, (47, 41, 53)),
     (247, (49, 43, 44)), (248, (77, 70, 81)), (249, (100, 118, 129)), (250, (78, 69, 83)),
     (251, (81, 74, 63)), (252, (56, 66, 81)), (253, (50, 73, 59)), (254, (82, 59, 64)),
     (255, (70, 79, 81)), (256, (46, 58, 54)), (257, (56, 56, 46)), (258, (57, 49, 49)),
     (259, (45, 51, 56)), (260, (56, 48, 59)), (261, (80, 63, 55)), (262, (55, 40, 28)),
     (263, (32, 28, 22)), (264, (36, 37, 57)), (265, (25, 61, 67)), (266, (82, 108, 134)),
     (267, (36, 33, 65)), (268, (101, 52, 52)), (269, (62, 44, 45)), (270, (93, 68, 47)),
     (271, (84, 60, 39)), (272, (120, 127, 143)), (273, (15, 16, 45)), (274, (61, 61, 61)),
     (275, (126, 68, 43)), (276, (63, 47, 63)), (277, (65, 51, 77)), (278, (67, 72, 59)),
     (279, (60, 38, 67)), (280, (123, 56, 47)), (281, (87, 24, 26)), (282, (102, 64, 53)),
     (283, (122, 46, 54)), (284, (99, 70, 55)), (285, (102, 73, 57)), (286, (92, 65, 49)),
     (287, (106, 75, 58)), (288, (81, 33, 83)), (289, (96, 79, 99)), (290, (124, 42, 104)),
     (291, (111, 54, 112)), (292, (75, 68, 55)), (293, (83, 83, 59)), (294, (39, 67, 44)),
     (295, (77, 77, 55)), (296, (92, 36, 28)), (297, (96, 48, 39)), (298, (108, 44, 26)),
     (299, (106, 42, 38)), (300, (70, 69, 61)), (301, (57, 60, 57)), (302, (69, 57, 59)),
     (303, (71, 60, 66)), (304, (148, 93, 52)), (305, (51, 38, 65)), (306, (43, 24, 22)),
     (307, (78, 73, 114)), (308, (54, 36, 68)), (309, (73, 18, 12)), (310, (58, 47, 81)),
     (311, (115, 65, 34)), (312, (36, 65, 16)), (313, (33, 61, 19)), (314, (74, 58, 44)),
     (315, (114, 120, 45)), (316, (58, 52, 64)), (317, (80, 70, 82)), (318, (6, 6, 34)),
     (319, (91, 48, 82)), (320, (66, 39, 27)), (321, (62, 83, 108)), (322, (58, 84, 115)),
     (323, (99, 94, 105)), (324, (80, 92, 104)), (325, (56, 95, 124)), (326, (92, 94, 80)),
     (327, (62, 102, 116)), (328, (98, 103, 105)), (329, (87, 92, 118)), (330, (84, 89, 105)),
     (331, (42, 44, 81)), (332, (34, 66, 26)), (333, (64, 25, 49)), (334, (76, 66, 32)),
     (335, (60, 65, 67)), (336, (76, 45, 32)), (337, (37, 36, 59)), (338, (57, 34, 32)),
     (339, (19, 43, 60)), (340, (42, 67, 60)), (341, (104, 23, 0)), (342, (91, 9, 65)),
     (343, (17, 89, 43)), (344, (5, 65, 94)), (345, (58, 6, 81)), (346, (255, 0, 255)),
     (347, (255, 0, 255)), (348, (255, 0, 255)), (349, (255, 0, 255)), (350, (255, 0, 255)),
     (351, (255, 0, 255)), (352, (255, 0, 255)), (353, (255, 0, 255)), (354, (255, 0, 255)),
     (355, (255, 0, 255)), (356, (255, 0, 255)), (357, (255, 0, 255)), (358, (255, 0, 255)),
     (359, (255, 0, 255)), (360, (255, 0, 255)), (361, (255, 0, 255)), (362, (255, 0, 255)),
     (363, (255, 0, 255)), (364, (255, 0, 255)), (365, (255, 0, 255)), (366, (255, 0, 255))]"

definition LIQUID_COLORS :: "(liquid \<times> rgb) list" where
  "LIQUID_COLORS =
     [(Water, (9, 61, 191)), (Lava, (200, 60, 10)), (Honey, (180, 140, 20)),
      (Shimmer, (180, 120, 220))]"

definition BG_SKY :: rgb where
  "BG_SKY = (91, 172, 255)"

definition BG_UNDERGROUND :: rgb where
  "BG_UNDERGROUND = (73, 58, 50)"

definition BG_CAVERN :: rgb where
  "BG_CAVERN = (52, 40, 32)"

definition BG_HELL :: rgb where
  "BG_HELL = (47, 18, 5)"

definition MOD_TILE_COLORS :: "rgb list" where
  "MOD_TILE_COLORS =
     [(160, 120, 120), (120, 160, 120), (120, 120, 160), (160, 160, 100),
      (100, 160, 160), (160, 100, 160), (140, 140, 120), (120, 140, 140)]"

text \<open>
  \<^verbatim>\<open>surface\<close> and \<^verbatim>\<open>rockLayer\<close> are \<^verbatim>\<open>Math.floor\<close> of two doubles of the header: an
  integer, an infinity or \<^verbatim>\<open>NaN\<close>. The model takes the floored values as they are and
  compares a row with them as JavaScript does.
\<close>

datatype floored = Floor int | PosInfinity | NegInfinity | FloorNaN

fun row_below :: "int \<Rightarrow> floored \<Rightarrow> bool" where
  "row_below y (Floor n) = (y < n)"
| "row_below y PosInfinity = True"
| "row_below y NegInfinity = False"
| "row_below y FloorNaN = False"

text \<open>
  The colour of the cell in row \<open>y\<close>, the \<^verbatim>\<open>if\<close> chain of the pixel loop.
  \<open>hellLayer\<close> is \<^verbatim>\<open>height - 200\<close>.
\<close>

definition cellColor :: "Tile \<Rightarrow> int \<Rightarrow> floored \<Rightarrow> floored \<Rightarrow> int \<Rightarrow> rgb" where
  "cellColor tile y surface rockLayer hellLayer =
     (case blockId tile of
        Some bid \<Rightarrow>
          if bid > 419
          then MOD_TILE_COLORS ! nat (bid mod int (length MOD_TILE_COLORS))
          else (case map_of TILE_COLORS bid of Some c \<Rightarrow> c | None \<Rightarrow> (255, 0, 255))
      | None \<Rightarrow>
          (case liquidType tile of
             Some k \<Rightarrow> (case map_of LIQUID_COLORS k of Some c \<Rightarrow> c | None \<Rightarrow> (9, 61, 191))
           | None \<Rightarrow>
               if (case wallId tile of None \<Rightarrow> False | Some w \<Rightarrow> w > 0)
               then (case map_of WALL_COLORS (the (wallId tile)) of Some c \<Rightarrow> c | None \<Rightarrow> (60, 60, 60))
               else if row_below y surface then BG_SKY
               else if row_below y rockLayer then BG_UNDERGROUND
               else if y < hellLayer then BG_CAVERN
               else BG_HELL))"

text \<open>
  The four rules as the specification words them, each on its own, and the condition
  under which each is the one to apply.
\<close>

datatype layer = BlockRule | LiquidRule | WallRule | BackgroundRule

definition block_rule :: "int \<Rightarrow> rgb" where
  "block_rule bid =
     (if bid > 419 then MOD_TILE_COLORS ! nat (bid mod 8)
      else (case map_of TILE_COLORS bid of Some c \<Rightarrow> c | None \<Rightarrow> (255, 0, 255)))"

definition liquid_rule :: "liquid \<Rightarrow> rgb" where
  "liquid_rule k = (case map_of LIQUID_COLORS k of Some c \<Rightarrow> c | None \<Rightarrow> (9, 61, 191))"

definition wall_rule :: "int \<Rightarrow> rgb" where
  "wall_rule w = (case map_of WALL_COLORS w of Some c \<Rightarrow> c | None \<Rightarrow> (60, 60, 60))"

definition background_rule :: "int \<Rightarrow> floored \<Rightarrow> floored \<Rightarrow> int \<Rightarrow> rgb" where
  "background_rule y surface rockLayer hellLayer =
     (if row_below y surface then BG_SKY
      else if row_below y rockLayer then BG_UNDERGROUND
      else if y < hellLayer then BG_CAVERN
      else BG_HELL)"

fun rule_applies :: "layer \<Rightarrow> Tile \<Rightarrow> bool" where
  "rule_applies BlockRule t = (blockId t \<noteq> None)"
| "rule_applies LiquidRule t = (blockId t = None \<and> liquidType t \<noteq> None)"
| "rule_applies WallRule t =
     (blockId t = None \<and> liquidType t = None \<and> (case wallId t of None \<Rightarrow> False | Some w \<Rightarrow> w > 0))"
| "rule_applies BackgroundRule t =
     (blockId t = None \<and> liquidType t = None \<and> (case wallId t of None \<Rightarrow> True | Some w \<Rightarrow> w \<le> 0))"

fun rule_color :: "layer \<Rightarrow> Tile \<Rightarrow> int \<Rightarrow> floored \<Rightarrow> floored \<Rightarrow> int \<Rightarrow> rgb" where
  "rule_color BlockRule t y surface rockLayer hellLayer = block_rule (the (blockId t))"
| "rule_color LiquidRule t y surface rockLayer hellLayer = liquid_rule (the (liquidType t))"
| "rule_color WallRule t y surface rockLayer hellLayer = wall_rule (the (wallId t))"
| "rule_color BackgroundRule t y surface rockLayer hellLayer = background_rule y surface rockLayer hellLayer"

text \<open>A world of one column and one row in which no tile type is important, for examples.\<close>

definition world_1x1 :: WorldNecessary where
  "world_1x1 = \<lparr>version = 279, pointers = [0], importants = [], width = 1, height = 1\<rparr>"

definition world_2x2 :: WorldNecessary where
  "world_2x2 = \<lparr>version = 279, pointers = [0], importants = [], width = 2, height = 2\<rparr>"

text \<open>
  The smallest file the validator accepts, 82 bytes: version 279, the magic string, file
  type 2, twelve skipped bytes, no section pointers, no important tile types, two empty
  strings, 44 skipped bytes, height 1 and width 1.
\<close>

definition tiny_file :: "byte list" where
  "tiny_file =
     [23, 1, 0, 0] @ [114, 101, 108, 111, 103, 105, 99] @ [2] @ replicate 12 0 @
     [0, 0] @ [0, 0] @ [0] @ [0] @ replicate 44 0 @ [1, 0, 0, 0] @ [1, 0, 0, 0]"

text \<open>
  A header section of 415 zero bytes, the number the header decoder reads from such bytes
  at version 279, in a parser as \<^verbatim>\<open>loadFile\<close> leaves it with the cursor at byte \<open>k\<close>; and two
  worlds that differ in the version only, one below every gate of the header and one at
  or above every gate.
\<close>

definition zero_header :: "int \<Rightarrow> parser" where
  "zero_header k = (new_parser (replicate 415 0))\<lparr>offset := At k\<rparr>"

definition world_v194 :: WorldNecessary where
  "world_v194 = \<lparr>version = 194, pointers = [0], importants = [], width = 1, height = 1\<rparr>"

definition world_v279 :: WorldNecessary where
  "world_v279 = \<lparr>version = 279, pointers = [0], importants = [], width = 1, height = 1\<rparr>"

text \<open>
  A file of 92 bytes with a world of one column and one row: the preamble of 90 bytes
  (version 279, two section pointers, both 90, no important tile types) and one tile
  record, \<open>8, 200\<close>, water of depth 200.
\<close>

definition water_file :: "byte list" where
  "water_file =
     [23, 1, 0, 0] @ [114, 101, 108, 111, 103, 105, 99] @ [2] @ replicate 12 0 @
     [2, 0] @ [90, 0, 0, 0] @ [90, 0, 0, 0] @ [0, 0] @ [0] @ [0] @ replicate 44 0 @
     [1, 0, 0, 0] @ [1, 0, 0, 0] @ [8, 200]"

section \<open>Properties\<close>

lemma offset_set_offset [simp]: "offset (set_offset v p) = v"
  by (simp add: set_offset_def split: option.splits)

lemma buffer_set_offset [simp]: "buffer (set_offset v p) = buffer p"
  by (simp add: set_offset_def split: option.splits)

lemma ignoreBounds_set_offset [simp]: "ignoreBounds (set_offset v p) = ignoreBounds p"
  by (simp add: set_offset_def split: option.splits)

lemma RLE_set_offset [simp]: "RLE (set_offset v p) = RLE p"
  by (simp add: set_offset_def split: option.splits)

lemma typed_read_state:
  "snd (typed_read w dec p) = set_offset (offs_add (offset p) (int w)) p"
  by (simp add: typed_read_def Let_def split: option.splits)

lemma typed_read_past_end:
  assumes "offset p = At n" and "int (length (buffer p)) < n + int w"
  shows "fst (typed_read w dec p) = (if ignoreBounds p then Inr 0 else Inl OutOfBounds)"
  using assms
  by (auto simp: typed_read_def Let_def view_bytes_def split: option.splits)

subsection \<open>Sequencing\<close>

lemma thenDo_ret [simp]: "thenDo (ret a) f = f a"
  by (rule ext) (simp add: thenDo_def ret_def)

lemma thenDo_Inr:
  "thenDo m f p = (Inr b, p') \<longleftrightarrow> (\<exists>a p1. m p = (Inr a, p1) \<and> f a p1 = (Inr b, p'))"
  by (auto simp: thenDo_def split: prod.splits sum.splits)

lemma ret_Inr [simp]: "ret a p = (Inr b, p') \<longleftrightarrow> a = b \<and> p = p'"
  by (auto simp: ret_def)

subsection \<open>Values read\<close>

lemma typed_read_Inr:
  assumes "typed_read w dec p = (Inr a, p')"
  shows "a = 0 \<or> (\<exists>bs. length bs = w \<and> a = dec bs)"
proof (cases "view_bytes (buffer p) (offs_add (offs_add (offset p) (int w)) (- int w)) w")
  case None
  with assms show ?thesis
    by (simp add: typed_read_def Let_def split: if_splits)
next
  case (Some bs)
  then have "length bs = w"
    by (auto simp: view_bytes_def split: option.splits if_splits)
  with Some assms show ?thesis
    by (auto simp: typed_read_def Let_def split: if_splits)
qed

lemma readUInt8_range:
  assumes "readUInt8 p = (Inr a, p')"
  shows "0 \<le> a \<and> a < 256"
proof -
  from assms consider "a = 0" | bs where "length bs = 1" "a = le_uint bs"
    using typed_read_Inr [of 1 le_uint p a p'] by (auto simp: readUInt8_def)
  then show ?thesis
  proof cases
    case 1
    then show ?thesis by simp
  next
    case 2
    then obtain b where "bs = [b]" by (cases bs) auto
    with 2 have "a = uint b" by (simp add: le_uint_def)
    moreover have "uint b < 256" using uint_bounded [of b] by simp
    ultimately show ?thesis by simp
  qed
qed

lemma liquid_field_range: "0 \<le> drop_bit 3 (f AND (24::int)) \<and> drop_bit 3 (f AND (24::int)) \<le> 3"
proof -
  define x where "x = f AND 24"
  have "0 \<le> x" by (simp add: x_def)
  moreover have "x \<le> 24" unfolding x_def by (rule AND_upper2) simp
  moreover have "drop_bit 3 x = x div 8" by (simp add: drop_bit_eq_div)
  ultimately have "0 \<le> drop_bit 3 x \<and> drop_bit 3 x \<le> 3" by presburger
  then show ?thesis by (simp add: x_def)
qed

subsection \<open>Out-of-bounds reads\<close>

text \<open>
  What the cursor promises of a typed read \<open>rd\<close> of width \<open>w\<close>: the offset has advanced by
  \<open>w\<close> in the object it leaves, whatever the outcome; the read changes neither the bounds
  mode nor the buffer (the mode is a property of the object, not an argument of the
  read); and a read from an integer offset \<open>n\<close> with \<open>n + w\<close> beyond the end of the buffer
  throws in strict mode and returns 0 in lenient mode.
\<close>

definition read_contract :: "nat \<Rightarrow> int rd \<Rightarrow> bool" where
  "read_contract w rd \<longleftrightarrow>
     (\<forall>p. offset (snd (rd p)) = offs_add (offset p) (int w) \<and>
          ignoreBounds (snd (rd p)) = ignoreBounds p \<and>
          buffer (snd (rd p)) = buffer p \<and>
          (\<forall>n. offset p = At n \<and> int (length (buffer p)) < n + int w \<longrightarrow>
               fst (rd p) = (if ignoreBounds p then Inr 0 else Inl OutOfBounds)))"

lemma typed_read_contract: "read_contract w (typed_read w dec)"
  unfolding read_contract_def
  by (auto simp: typed_read_state typed_read_past_end)

text \<open>
  C8. Every typed read, \<^verbatim>\<open>readUInt8\<close> through \<^verbatim>\<open>readFloat64\<close>, advances the offset by its
  declared width whether or not it succeeds; a read extending past the end of the
  buffer throws in strict mode and returns zero in lenient mode; the mode is the
  object's, left unchanged by the read.
\<close>

theorem typed_reads_out_of_bounds:
  "read_contract 1 readUInt8 \<and> read_contract 2 readInt16 \<and> read_contract 2 readUInt16 \<and>
   read_contract 4 readInt32 \<and> read_contract 4 readUInt32 \<and> read_contract 4 readFloat32 \<and>
   read_contract 8 readFloat64"
  by (simp add: readUInt8_def readInt16_def readUInt16_def readInt32_def readUInt32_def
      readFloat32_def readFloat64_def typed_read_contract)

theorem typed_reads_out_of_bounds_witness:
  "fst (readInt32 (new_parser [1, 2])) = Inl OutOfBounds \<and>
   offset (snd (readInt32 (new_parser [1, 2]))) = At 4 \<and>
   fst (readFloat64 ((new_parser [1, 2])\<lparr>ignoreBounds := True\<rparr>)) = Inr 0 \<and>
   offset (snd (readFloat64 ((new_parser [1, 2])\<lparr>ignoreBounds := True\<rparr>))) = At 8"
proof -
  have a: "read_contract 4 readInt32" and b: "read_contract 8 readFloat64"
    using typed_reads_out_of_bounds by simp_all
  have "offset (new_parser [1, 2]) = At 0 \<and> int (length (buffer (new_parser [1, 2]))) < 0 + int 4"
    by (simp add: new_parser_def)
  moreover have "offset ((new_parser [1, 2])\<lparr>ignoreBounds := True\<rparr>) = At 0 \<and>
      int (length (buffer ((new_parser [1, 2])\<lparr>ignoreBounds := True\<rparr>))) < 0 + int 8"
    by (simp add: new_parser_def)
  ultimately show ?thesis
    using a [unfolded read_contract_def, rule_format, of "new_parser [1, 2]"]
      b [unfolded read_contract_def, rule_format, of "(new_parser [1, 2])\<lparr>ignoreBounds := True\<rparr>"]
    by (simp add: new_parser_def)
qed

section \<open>The tile record\<close>

text \<open>Unfolding sets for evaluating the decoder on a concrete buffer.\<close>

lemmas cursor_eval =
  new_parser_def readUInt8_def readInt16_def readUInt16_def readInt32_def typed_read_def
  thenDo_def ret_def set_offset_def view_bytes_def le_uint_def le_sint_def

lemmas tile_eval =
  parseTileData_def tileFlags_def tileLayers_def tileBlock_def tileWall_def tileLiquid_def
  tileExtras_def tileWires_def tileActuators_def tilePaint_def tileWallHigh_def tileRLE_def
  set_RLE_def important_def flag_set_def world_1x1_def

lemma tileBlock_keeps:
  "tileBlock world flags1 flags3 t q = (Inr t', q') \<Longrightarrow>
     liquidType t' = liquidType t \<and> liquidAmount t' = liquidAmount t \<and> wallId t' = wallId t"
  by (auto simp: tileBlock_def thenDo_Inr split: if_splits)

lemma tileWall_keeps:
  "tileWall flags1 flags3 t q = (Inr t', q') \<Longrightarrow>
     liquidType t' = liquidType t \<and> liquidAmount t' = liquidAmount t"
  by (auto simp: tileWall_def thenDo_Inr split: if_splits)

lemma tileWires_keeps [simp]:
  "liquidType (tileWires f t) = liquidType t" "liquidAmount (tileWires f t) = liquidAmount t"
  "wallId (tileWires f t) = wallId t"
  by (simp_all add: tileWires_def Let_def)

lemma tileActuators_keeps [simp]:
  "liquidType (tileActuators f t) = liquidType t" "liquidAmount (tileActuators f t) = liquidAmount t"
  "wallId (tileActuators f t) = wallId t"
  by (simp_all add: tileActuators_def Let_def)

lemma tilePaint_keeps [simp]:
  "liquidType (tilePaint f t) = liquidType t" "liquidAmount (tilePaint f t) = liquidAmount t"
  "wallId (tilePaint f t) = wallId t"
  by (simp_all add: tilePaint_def Let_def)

lemma tileExtras_keeps:
  "tileExtras flags2 flags3 flags4 t q = (Inr t', q') \<Longrightarrow>
     liquidType t' = liquidType t \<and> liquidAmount t' = liquidAmount t"
  by (auto simp: tileExtras_def tileWallHigh_def thenDo_Inr split: if_splits option.splits)

lemma tileLiquid_step:
  assumes "tileLiquid flags1 flags3 t q = (Inr t', q')"
  shows "(drop_bit 3 (flags1 AND 24) = 0 \<longrightarrow> t' = t \<and> q' = q) \<and>
         (drop_bit 3 (flags1 AND 24) \<noteq> 0 \<longrightarrow>
            (\<exists>a. readUInt8 q = (Inr a, q') \<and> 0 \<le> a \<and> a < 256 \<and>
                 t' = t\<lparr>liquidAmount := Some a,
                        liquidType := Some (if flag_set flags3 128 then Shimmer
                                            else [Water, Lava, Honey] ! nat (drop_bit 3 (flags1 AND 24) - 1))\<rparr>))"
proof -
  let ?lt = "drop_bit 3 (flags1 AND 24)"
  have "?lt = 0 \<or> ?lt = 1 \<or> ?lt = 2 \<or> ?lt = 3"
    using liquid_field_range [of flags1] by arith
  then show ?thesis
    using assms by (auto simp: tileLiquid_def Let_def thenDo_Inr split: if_splits dest: readUInt8_range)
qed

lemma parseTileData_Inr:
  "parseTileData world p = (Inr tile, p') \<longleftrightarrow>
     (\<exists>flags1 flags2 flags3 flags4 p1 tile1 p2 p3.
        tileFlags p = (Inr (flags1, flags2, flags3, flags4), p1) \<and>
        tileLayers world flags1 flags3 emptyTile p1 = (Inr tile1, p2) \<and>
        tileExtras flags2 flags3 flags4 tile1 p2 = (Inr tile, p3) \<and>
        tileRLE flags1 p3 = (Inr (), p'))"
  by (auto simp: parseTileData_def thenDo_Inr split: prod.splits)


lemma tileFlags_Inr:
  assumes "tileFlags p = (Inr (flags1, flags2, flags3, flags4), p1)"
  shows "0 \<le> flags1 \<and> flags1 < 256 \<and>
         (flags3 \<noteq> None \<longrightarrow> (\<exists>f2. flags2 = Some f2 \<and> f2 AND 1 \<noteq> 0)) \<and>
         (flags4 \<noteq> None \<longrightarrow> (\<exists>f3. flags3 = Some f3 \<and> f3 AND 1 \<noteq> 0))"
  using assms
  by (auto simp: tileFlags_def thenDo_Inr split: if_splits dest: readUInt8_range)

lemma low_flags_no_liquid:
  assumes "0 \<le> (f::int)" "f \<le> 1"
  shows "f AND 24 = 0" "f AND 4 = 0" "f AND 2 = 0"
proof -
  from assms have "f = 0 \<or> f = 1" by arith
  then show "f AND 24 = 0" "f AND 4 = 0" "f AND 2 = 0" by auto
qed

text \<open>
  The block of \<^verbatim>\<open>if (flags1 > 1)\<close> is the block part, the wall part and the liquid part one
  after the other; for a first flag byte of 0 or 1, which skips the block, none of the
  three parts does anything.
\<close>

lemma tileLayers_steps:
  assumes "tileLayers world flags1 flags3 tile p1 = (Inr tile1, p2)" and "0 \<le> flags1"
  shows "\<exists>t1 q1 t2 q2.
           tileBlock world flags1 flags3 tile p1 = (Inr t1, q1) \<and>
           tileWall flags1 flags3 t1 q1 = (Inr t2, q2) \<and>
           tileLiquid flags1 flags3 t2 q2 = (Inr tile1, p2)"
proof (cases "flags1 > 1")
  case True
  with assms(1) show ?thesis by (auto simp: tileLayers_def thenDo_Inr)
next
  case False
  with assms have low: "flags1 AND 2 = 0" "flags1 AND 4 = 0" "flags1 AND 24 = 0"
    and same: "tile1 = tile" "p2 = p1"
    by (simp_all add: low_flags_no_liquid tileLayers_def ret_def)
  then show ?thesis
    by (simp add: tileBlock_def tileWall_def tileLiquid_def ret_def)
qed

lemma tileLayers_no_wall:
  assumes "tileLayers world flags1 flags3 emptyTile p1 = (Inr tile1, p2)" and "flags1 AND 4 = 0"
  shows "wallId tile1 = None"
proof (cases "flags1 > 1")
  case False
  with assms have "tile1 = emptyTile" by (simp add: tileLayers_def)
  then show ?thesis by (simp add: emptyTile_def)
next
  case True
  with assms obtain t1 q1 t2 q2 where
    b: "tileBlock world flags1 flags3 emptyTile p1 = (Inr t1, q1)" and
    w: "tileWall flags1 flags3 t1 q1 = (Inr t2, q2)" and
    l: "tileLiquid flags1 flags3 t2 q2 = (Inr tile1, p2)"
    by (auto simp: tileLayers_def thenDo_Inr)
  from w assms(2) have "t2 = t1" by (simp add: tileWall_def)
  moreover from l have "wallId tile1 = wallId t2"
    by (auto simp: tileLiquid_def Let_def thenDo_Inr split: if_splits)
  ultimately show ?thesis using tileBlock_keeps [OF b] by (simp add: emptyTile_def)
qed


text \<open>
  C2 (as amended). The 2-bit field at bits 3-4 of flag byte 1 selects the liquid. The
  liquid part of a record starts where its wall part ended, with the tile \<open>t2\<close> and the
  parser \<open>q2\<close>. When the field is 0 nothing is read there: the parser and the tile are left
  as they were, and the record has neither a liquid kind nor a liquid depth. When it is
  1, 2 or 3 exactly one unsigned byte is read there, the liquid depth, and the kind is
  water, lava or honey, unless flag byte 3 exists with bit 7 set, in which case the kind is
  shimmer. The override needs a nonzero field: it stands inside \<^verbatim>\<open>if (liquidType)\<close>.
\<close>

theorem liquid_kind_decoding:
  assumes flags: "tileFlags p = (Inr (flags1, flags2, flags3, flags4), p1)"
    and tile: "parseTileData world p = (Inr tile, p')"
  shows "\<exists>t1 q1 t2 q2 tile1 p2.
           tileBlock world flags1 flags3 emptyTile p1 = (Inr t1, q1) \<and>
           tileWall flags1 flags3 t1 q1 = (Inr t2, q2) \<and>
           tileLayers world flags1 flags3 emptyTile p1 = (Inr tile1, p2) \<and>
           (drop_bit 3 (flags1 AND 24) = 0 \<longrightarrow>
              tile1 = t2 \<and> p2 = q2 \<and> liquidType tile = None \<and> liquidAmount tile = None) \<and>
           (drop_bit 3 (flags1 AND 24) \<noteq> 0 \<longrightarrow>
              (\<exists>a. readUInt8 q2 = (Inr a, p2) \<and> offset p2 = offs_add (offset q2) 1 \<and>
                   0 \<le> a \<and> a < 256 \<and> liquidAmount tile = Some a \<and>
                   tile1 = t2\<lparr>liquidAmount := Some a, liquidType := liquidType tile\<rparr>) \<and>
              liquidType tile = Some (if flag_set flags3 128 then Shimmer
                                      else [Water, Lava, Honey] ! nat (drop_bit 3 (flags1 AND 24) - 1)))"
proof -
  from tile flags obtain tile1 p2 p3 where
    layers: "tileLayers world flags1 flags3 emptyTile p1 = (Inr tile1, p2)" and
    extras: "tileExtras flags2 flags3 flags4 tile1 p2 = (Inr tile, p3)"
    by (auto simp: parseTileData_Inr)
  have keep: "liquidType tile = liquidType tile1" "liquidAmount tile = liquidAmount tile1"
    using tileExtras_keeps [OF extras] by simp_all
  have "0 \<le> flags1" using tileFlags_Inr [OF flags] by simp
  from tileLayers_steps [OF layers this] obtain t1 q1 t2 q2 where
    b: "tileBlock world flags1 flags3 emptyTile p1 = (Inr t1, q1)" and
    w: "tileWall flags1 flags3 t1 q1 = (Inr t2, q2)" and
    l: "tileLiquid flags1 flags3 t2 q2 = (Inr tile1, p2)"
    by blast
  have none: "liquidType t2 = None" "liquidAmount t2 = None"
    using tileBlock_keeps [OF b] tileWall_keeps [OF w] by (simp_all add: emptyTile_def)
  have zero: "tile1 = t2 \<and> p2 = q2 \<and> liquidType tile = None \<and> liquidAmount tile = None"
    if "drop_bit 3 (flags1 AND 24) = 0"
    using tileLiquid_step [OF l] that none keep by simp
  have nonzero: "(\<exists>a. readUInt8 q2 = (Inr a, p2) \<and> offset p2 = offs_add (offset q2) 1 \<and>
                   0 \<le> a \<and> a < 256 \<and> liquidAmount tile = Some a \<and>
                   tile1 = t2\<lparr>liquidAmount := Some a, liquidType := liquidType tile\<rparr>) \<and>
              liquidType tile = Some (if flag_set flags3 128 then Shimmer
                                      else [Water, Lava, Honey] ! nat (drop_bit 3 (flags1 AND 24) - 1))"
    if nz: "drop_bit 3 (flags1 AND 24) \<noteq> 0"
  proof -
    from tileLiquid_step [OF l] nz obtain a where
      a: "readUInt8 q2 = (Inr a, p2)" "0 \<le> a" "a < 256" and
      t: "tile1 = t2\<lparr>liquidAmount := Some a,
                     liquidType := Some (if flag_set flags3 128 then Shimmer
                                         else [Water, Lava, Honey] ! nat (drop_bit 3 (flags1 AND 24) - 1))\<rparr>"
      by blast
    from a(1) have o: "offset p2 = offs_add (offset q2) 1"
      using typed_read_state [of 1 le_uint q2] by (simp add: readUInt8_def)
    from t keep have k: "liquidAmount tile = Some a"
      "liquidType tile = Some (if flag_set flags3 128 then Shimmer
                               else [Water, Lava, Honey] ! nat (drop_bit 3 (flags1 AND 24) - 1))"
      by simp_all
    with a o t show ?thesis by simp
  qed
  from b w layers zero nonzero show ?thesis by blast
qed

theorem liquid_kind_decoding_witness:
  "fst (tileFlags (new_parser [8, 200])) = Inr (8, None, None, None) \<and>
   fst (parseTileData world_1x1 (new_parser [8, 200])) =
     Inr (emptyTile\<lparr>liquidAmount := Some 200, liquidType := Some Water\<rparr>) \<and>
   drop_bit 3 ((8::int) AND 24) \<noteq> 0 \<and>
   (\<exists>t1 q1 t2 q2 tile1 p2.
      tileBlock world_1x1 8 None emptyTile (snd (tileFlags (new_parser [8, 200]))) = (Inr t1, q1) \<and>
      tileWall 8 None t1 q1 = (Inr t2, q2) \<and>
      tileLayers world_1x1 8 None emptyTile (snd (tileFlags (new_parser [8, 200]))) = (Inr tile1, p2) \<and>
      readUInt8 q2 = (Inr 200, p2) \<and> offset p2 = offs_add (offset q2) 1 \<and>
      tile1 = t2\<lparr>liquidAmount := Some 200, liquidType := Some Water\<rparr>)"
proof -
  let ?p = "new_parser [8, 200]"
  let ?tile = "emptyTile\<lparr>liquidAmount := Some 200, liquidType := Some Water\<rparr>"
  have f: "fst (tileFlags ?p) = Inr (8, None, None, None)"
    by (simp add: tile_eval cursor_eval)
  have t: "fst (parseTileData world_1x1 ?p) = Inr ?tile"
    by (simp add: tile_eval cursor_eval)
  have n: "drop_bit 3 ((8::int) AND 24) \<noteq> 0" by simp
  have "tileFlags ?p = (Inr (8, None, None, None), snd (tileFlags ?p))"
    and "parseTileData world_1x1 ?p = (Inr ?tile, snd (parseTileData world_1x1 ?p))"
    using f t by (simp_all add: prod_eq_iff)
  from liquid_kind_decoding [OF this] obtain t1 q1 t2 q2 tile1 p2 where
    b: "tileBlock world_1x1 8 None emptyTile (snd (tileFlags ?p)) = (Inr t1, q1)" and
    w: "tileWall 8 None t1 q1 = (Inr t2, q2)" and
    l: "tileLayers world_1x1 8 None emptyTile (snd (tileFlags ?p)) = (Inr tile1, p2)" and
    nz: "drop_bit 3 ((8::int) AND 24) \<noteq> 0 \<longrightarrow>
          (\<exists>a. readUInt8 q2 = (Inr a, p2) \<and> offset p2 = offs_add (offset q2) 1 \<and>
               0 \<le> a \<and> a < 256 \<and> liquidAmount ?tile = Some a \<and>
               tile1 = t2\<lparr>liquidAmount := Some a, liquidType := liquidType ?tile\<rparr>) \<and>
          liquidType ?tile = Some (if flag_set None 128 then Shimmer
                                   else [Water, Lava, Honey] ! nat (drop_bit 3 ((8::int) AND 24) - 1))"
    by blast
  from nz n obtain a where
    a: "readUInt8 q2 = (Inr a, p2)" "offset p2 = offs_add (offset q2) 1" "liquidAmount ?tile = Some a"
      "tile1 = t2\<lparr>liquidAmount := Some a, liquidType := liquidType ?tile\<rparr>"
    by blast
  from a(3) have "a = 200" by simp
  with a have "readUInt8 q2 = (Inr 200, p2)"
    "tile1 = t2\<lparr>liquidAmount := Some 200, liquidType := Some Water\<rparr>"
    by simp_all
  with f t n b w l a(2) show ?thesis by blast
qed

text \<open>
  The claim as stated fails: in the record \<open>3, 1, 128, 7\<close> flag byte 3 exists with bit 7
  set and the field is 0; the tile decoded has a block id and no liquid kind.
\<close>

theorem liquid_override_counterexample:
  "fst (tileFlags (new_parser [3, 1, 128, 7])) = Inr (3, Some 1, Some 128, None) \<and>
   (128::int) AND 128 \<noteq> 0 \<and>
   fst (parseTileData world_1x1 (new_parser [3, 1, 128, 7])) = Inr (emptyTile\<lparr>blockId := Some 7\<rparr>) \<and>
   liquidType (emptyTile\<lparr>blockId := Some 7\<rparr>) \<noteq> Some Shimmer"
  by (simp add: tile_eval cursor_eval emptyTile_def)

text \<open>
  C3 (as amended). When flag byte 3 was read with bit 6 set, one more byte is read and
  becomes the high byte of the wall id; the low byte is the wall id read earlier in the
  record when there was one and 0 otherwise (\<^verbatim>\<open>tile.wallId ?? 0\<close>), so a record without a
  wall field does gain a wall id, 256 times that byte.
\<close>

theorem wall_high_byte:
  assumes flags: "tileFlags p = (Inr (flags1, flags2, Some flags3, flags4), p1)"
    and bit6: "flags3 AND 64 \<noteq> 0"
    and layers: "tileLayers world flags1 (Some flags3) emptyTile p1 = (Inr tile1, p2)"
    and tile: "parseTileData world p = (Inr tile, p')"
  shows "\<exists>hi p3. readUInt8 p2 = (Inr hi, p3) \<and> 0 \<le> hi \<and> hi < 256 \<and>
           wallId tile = Some (push_bit 8 hi OR (case wallId tile1 of None \<Rightarrow> 0 | Some lo \<Rightarrow> lo)) \<and>
           (flags1 AND 4 = 0 \<longrightarrow> wallId tile1 = None \<and> wallId tile = Some (push_bit 8 hi))"
proof -
  from tile flags layers obtain p3 where
    extras: "tileExtras flags2 (Some flags3) flags4 tile1 p2 = (Inr tile, p3)"
    by (auto simp: parseTileData_Inr)
  from tileFlags_Inr [OF flags] obtain f2 where f2: "flags2 = Some f2" "f2 AND 1 \<noteq> 0"
    by auto
  then have "f2 \<noteq> 0" by auto
  moreover from bit6 have "flags3 \<noteq> 0" by auto
  ultimately obtain hi where
    hi: "readUInt8 p2 = (Inr hi, p3)" and
    wall: "wallId tile = Some (push_bit 8 hi OR (case wallId tile1 of None \<Rightarrow> 0 | Some lo \<Rightarrow> lo))"
    using extras f2(1) bit6
    by (auto simp: tileExtras_def tileWallHigh_def thenDo_Inr split: option.splits if_splits)
  show ?thesis
    using hi wall readUInt8_range [OF hi] tileLayers_no_wall [OF layers]
    by auto
qed


theorem wall_high_byte_witness:
  "fst (tileFlags (new_parser [5, 1, 64, 9, 2])) = Inr (5, Some 1, Some 64, None) \<and>
   (64::int) AND 64 \<noteq> 0 \<and>
   fst (tileLayers world_1x1 5 (Some 64) emptyTile (snd (tileFlags (new_parser [5, 1, 64, 9, 2])))) =
     Inr (emptyTile\<lparr>wallId := Some 9\<rparr>) \<and>
   fst (parseTileData world_1x1 (new_parser [5, 1, 64, 9, 2])) = Inr (emptyTile\<lparr>wallId := Some 521\<rparr>) \<and>
   (\<exists>hi p3. readUInt8 (snd (tileLayers world_1x1 5 (Some 64) emptyTile (snd (tileFlags (new_parser [5, 1, 64, 9, 2]))))) = (Inr hi, p3) \<and>
      wallId (emptyTile\<lparr>wallId := Some 521\<rparr>) =
        Some (push_bit 8 hi OR (case wallId (emptyTile\<lparr>wallId := Some 9\<rparr>) of None \<Rightarrow> 0 | Some lo \<Rightarrow> lo)))"
proof -
  let ?p = "new_parser [5, 1, 64, 9, 2]"
  let ?p1 = "snd (tileFlags ?p)"
  let ?l = "tileLayers world_1x1 5 (Some 64) emptyTile ?p1"
  have f: "fst (tileFlags ?p) = Inr (5, Some 1, Some 64, None)"
    by (simp add: tile_eval cursor_eval)
  have b: "(64::int) AND 64 \<noteq> 0" by simp
  have l: "fst ?l = Inr (emptyTile\<lparr>wallId := Some 9\<rparr>)"
    by (simp add: tile_eval cursor_eval)
  have t: "fst (parseTileData world_1x1 ?p) = Inr (emptyTile\<lparr>wallId := Some 521\<rparr>)"
    by (simp add: tile_eval cursor_eval)
  have "tileFlags ?p = (Inr (5, Some 1, Some 64, None), ?p1)"
    and "(64::int) AND 64 \<noteq> 0"
    and "?l = (Inr (emptyTile\<lparr>wallId := Some 9\<rparr>), snd ?l)"
    and "parseTileData world_1x1 ?p = (Inr (emptyTile\<lparr>wallId := Some 521\<rparr>), snd (parseTileData world_1x1 ?p))"
    using f l t by (simp_all add: prod_eq_iff)
  from wall_high_byte [OF this] f b l t show ?thesis
    by blast
qed

text \<open>
  The claim as stated fails: the record \<open>1, 1, 64, 5\<close> has no wall field (bit 2 of flag
  byte 1 is clear, and the layers block leaves the tile empty), and the tile decoded has
  the wall id \<open>5 * 256 = 1280\<close>.
\<close>

theorem wall_high_byte_counterexample:
  "fst (tileFlags (new_parser [1, 1, 64, 5])) = Inr (1, Some 1, Some 64, None) \<and>
   (1::int) AND 4 = 0 \<and>
   fst (tileLayers world_1x1 1 (Some 64) emptyTile (snd (tileFlags (new_parser [1, 1, 64, 5])))) = Inr emptyTile \<and>
   wallId emptyTile = None \<and>
   fst (parseTileData world_1x1 (new_parser [1, 1, 64, 5])) = Inr (emptyTile\<lparr>wallId := Some 1280\<rparr>)"
  by (simp add: tile_eval cursor_eval emptyTile_def)

section \<open>The colour of a cell\<close>

lemma rule_applies_unique: "\<exists>!r. rule_applies r t"
proof -
  have ex: "\<exists>r. rule_applies r t"
  proof (cases "blockId t")
    case (Some b)
    then have "rule_applies BlockRule t" by simp
    then show ?thesis ..
  next
    case None
    show ?thesis
    proof (cases "liquidType t")
      case (Some k)
      with None have "rule_applies LiquidRule t" by simp
      then show ?thesis ..
    next
      case nl: None
      show ?thesis
      proof (cases "case wallId t of None \<Rightarrow> False | Some w \<Rightarrow> w > 0")
        case True
        with None nl have "rule_applies WallRule t" by simp
        then show ?thesis ..
      next
        case False
        with None nl have "rule_applies BackgroundRule t" by (simp split: option.splits)
        then show ?thesis ..
      qed
    qed
  qed
  have "r = r'" if "rule_applies r t" "rule_applies r' t" for r r'
    using that by (cases r; cases r') (auto split: option.splits)
  with ex show ?thesis by blast
qed

lemma length_MOD_TILE_COLORS: "length MOD_TILE_COLORS = 8"
  by (simp add: MOD_TILE_COLORS_def)

lemma cellColor_rule:
  assumes "rule_applies r t"
  shows "cellColor t y surface rockLayer hellLayer = rule_color r t y surface rockLayer hellLayer"
proof (cases r)
  case BlockRule
  with assms obtain bid where "blockId t = Some bid" by auto
  with BlockRule show ?thesis
    by (simp add: cellColor_def block_rule_def length_MOD_TILE_COLORS)
next
  case LiquidRule
  with assms obtain k where "blockId t = None" "liquidType t = Some k" by auto
  with LiquidRule show ?thesis
    by (simp add: cellColor_def liquid_rule_def)
next
  case WallRule
  with assms obtain w where "blockId t = None" "liquidType t = None" "wallId t = Some w" "w > 0"
    by (auto split: option.splits)
  with WallRule show ?thesis
    by (simp add: cellColor_def wall_rule_def)
next
  case BackgroundRule
  with assms have "blockId t = None" "liquidType t = None"
    "\<not> (case wallId t of None \<Rightarrow> False | Some w \<Rightarrow> w > 0)"
    by (auto split: option.splits)
  with BackgroundRule show ?thesis
    by (simp add: cellColor_def background_rule_def)
qed

lemma palette_entry:
  assumes "0 \<le> i" "i < 8"
  shows "MOD_TILE_COLORS ! nat i \<noteq> (255, 0, 255)"
proof -
  from assms have "nat i \<in> {0, 1, 2, 3, 4, 5, 6, 7}" by auto
  then show ?thesis
    by (auto simp: MOD_TILE_COLORS_def)
qed

text \<open>
  C6. For every cell exactly one of the four colour rules applies, in strict order:
  the block rule when a block id is present, whatever liquid or wall the cell also has;
  otherwise the liquid rule when a liquid kind is present; otherwise the wall rule when
  the wall id is greater than 0; otherwise the depth-band background rule. The colour
  of the cell is the colour of that one rule, with no blending.
\<close>

theorem rasterizer_precedence:
  "(\<exists>!r. rule_applies r t) \<and>
   (\<forall>r. rule_applies r t \<longrightarrow>
      cellColor t y surface rockLayer hellLayer = rule_color r t y surface rockLayer hellLayer) \<and>
   (\<forall>bid. blockId t = Some bid \<longrightarrow> cellColor t y surface rockLayer hellLayer = block_rule bid)"
proof (intro conjI allI impI)
  show "\<exists>!r. rule_applies r t" by (rule rule_applies_unique)
next
  fix r assume "rule_applies r t"
  then show "cellColor t y surface rockLayer hellLayer = rule_color r t y surface rockLayer hellLayer"
    by (rule cellColor_rule)
next
  fix bid assume "blockId t = Some bid"
  then have "rule_applies BlockRule t" by simp
  from cellColor_rule [OF this] \<open>blockId t = Some bid\<close>
  show "cellColor t y surface rockLayer hellLayer = block_rule bid" by simp
qed

theorem rasterizer_precedence_witness:
  "blockId (emptyTile\<lparr>blockId := Some 1, wallId := Some 4, liquidType := Some Water\<rparr>) = Some 1 \<and>
   cellColor (emptyTile\<lparr>blockId := Some 1, wallId := Some 4, liquidType := Some Water\<rparr>) 10 (Floor 300) (Floor 500) 1000 = (128, 128, 128)"
proof -
  let ?t = "emptyTile\<lparr>blockId := Some 1, wallId := Some 4, liquidType := Some Water\<rparr>"
  have b: "blockId ?t = Some 1" by simp
  have "block_rule 1 = (128, 128, 128)"
    by (simp add: block_rule_def TILE_COLORS_def)
  with rasterizer_precedence [of ?t 10 "Floor 300" "Floor 500" 1000] b show ?thesis
    by simp
qed

text \<open>
  C7. A cell whose block id is greater than 419 takes the entry
  \<open>id mod paletteSize\<close> of the cyclic fallback palette, which is never the magenta
  sentinel; a cell whose block id is at most 419 takes its entry of the static table,
  and the sentinel only when the table has no entry for the id.
\<close>

theorem fallback_palette:
  assumes "blockId t = Some bid"
  shows "(bid > 419 \<longrightarrow>
            cellColor t y surface rockLayer hellLayer = MOD_TILE_COLORS ! nat (bid mod int (length MOD_TILE_COLORS)) \<and>
            cellColor t y surface rockLayer hellLayer \<noteq> (255, 0, 255)) \<and>
         (bid \<le> 419 \<longrightarrow>
            cellColor t y surface rockLayer hellLayer =
              (case map_of TILE_COLORS bid of Some c \<Rightarrow> c | None \<Rightarrow> (255, 0, 255)))"
proof -
  have "MOD_TILE_COLORS ! nat (bid mod 8) \<noteq> (255, 0, 255)"
    by (rule palette_entry) simp_all
  with assms show ?thesis
    by (simp add: cellColor_def length_MOD_TILE_COLORS)
qed

theorem fallback_palette_witness:
  "blockId (emptyTile\<lparr>blockId := Some 999\<rparr>) = Some 999 \<and> (999::int) > 419 \<and>
   cellColor (emptyTile\<lparr>blockId := Some 999\<rparr>) 0 (Floor 1) (Floor 2) 3 = (120, 140, 140)"
proof -
  have b: "blockId (emptyTile\<lparr>blockId := Some 999\<rparr>) = Some 999" by simp
  from fallback_palette [OF b, of 0 "Floor 1" "Floor 2" 3] show ?thesis
    by (simp add: MOD_TILE_COLORS_def)
qed

section \<open>Run-length expansion\<close>

lemma js_get_js_set: "js_get (js_set xs i v) j = (if j = i then v else js_get xs j)"
  by (auto simp: js_get_def js_set_def nth_append)

lemma copy_run_spec:
  "\<exists>col'. copy_run y col p = (y + nat (RLE p), col', p\<lparr>RLE := min (RLE p) 0\<rparr>) \<and>
     (\<forall>j. js_get col' j = (if y < j \<and> j \<le> y + nat (RLE p) then js_get col y else js_get col j))"
proof (induction y col p rule: copy_run.induct)
  case (1 y col p)
  show ?case
  proof (cases "RLE p > 0")
    case False
    then show ?thesis
      by (auto simp: copy_run.simps [of y col p] min_def)
  next
    case True
    let ?col1 = "js_set col (y + 1) (js_get col y)"
    let ?p1 = "p\<lparr>RLE := RLE p - 1\<rparr>"
    from "1" [OF True] obtain col' where
      run: "copy_run (y + 1) ?col1 ?p1 = (y + 1 + nat (RLE ?p1), col', ?p1\<lparr>RLE := min (RLE ?p1) 0\<rparr>)" and
      get: "\<forall>j. js_get col' j = (if y + 1 < j \<and> j \<le> y + 1 + nat (RLE ?p1) then js_get ?col1 (y + 1) else js_get ?col1 j)"
      by blast
    have row: "y + 1 + nat (RLE ?p1) = y + nat (RLE p)" using True by simp
    have st: "?p1\<lparr>RLE := min (RLE ?p1) 0\<rparr> = p\<lparr>RLE := min (RLE p) 0\<rparr>" using True by simp
    have "copy_run y col p = (y + nat (RLE p), col', p\<lparr>RLE := min (RLE p) 0\<rparr>)"
      using True run row st by (simp add: copy_run.simps [of y col p])
    moreover have "\<forall>j. js_get col' j = (if y < j \<and> j \<le> y + nat (RLE p) then js_get col y else js_get col j)"
      using get row by (auto simp: js_get_js_set)
    ultimately show ?thesis by blast
  qed
qed


lemma runs_total_append [simp]: "runs_total (a @ b) = runs_total a + runs_total b"
  by (simp add: runs_total_def)

lemma runs_fit_append [simp]: "runs_fit world (a @ b) \<longleftrightarrow> runs_fit world a \<and> runs_fit world b"
  by (simp add: runs_fit_def)

lemma fill_column_log_spec:
  assumes "fill_column_log world x y col recs p = (Inr (col', recs'), p')"
  shows "\<exists>new. recs' = recs @ new \<and>
           (\<forall>j < y. js_get col' j = js_get col j) \<and>
           list_all (\<lambda>(x', yy, t, r). x' = x \<and> list_all (\<lambda>k. js_get col' (yy + k) = Some t) [0..<Suc (nat r)]) new \<and>
           (runs_fit world new \<longrightarrow> int (length new) + runs_total new = max 0 (height world - int y))"
  using assms
proof (induction world x y col recs p rule: fill_column_log.induct)
  case (1 world x y col recs p)
  show ?case
  proof (cases "int y < height world")
    case False
    with "1.prems" have "recs' = recs" "col' = col"
      by (simp_all add: fill_column_log.simps [of world x y col recs p])
    then have "recs' = recs @ [] \<and> (\<forall>j < y. js_get col' j = js_get col j)" by simp
    with False show ?thesis
      by (intro exI [of _ "[]"]) (simp add: runs_total_def)
  next
    case True
    with "1.prems" obtain tile p1 where
      tile: "parseTileData world p = (Inr tile, p1)"
      by (auto simp: fill_column_log.simps [of world x y col recs p] split: prod.splits sum.splits)
    let ?col1 = "js_set col y (Some tile)"
    from copy_run_spec [of y ?col1 p1] obtain col2 where
      run: "copy_run y ?col1 p1 = (y + nat (RLE p1), col2, p1\<lparr>RLE := min (RLE p1) 0\<rparr>)" and
      get: "\<forall>j. js_get col2 j = (if y < j \<and> j \<le> y + nat (RLE p1) then js_get ?col1 y else js_get ?col1 j)"
      by blast
    let ?y2 = "y + nat (RLE p1)"
    let ?p2 = "p1\<lparr>RLE := min (RLE p1) 0\<rparr>"
    let ?r = "(x, y, tile, RLE p1)"
    have rest: "fill_column_log world x (?y2 + 1) col2 (recs @ [?r]) ?p2 = (Inr (col', recs'), p')"
      using "1.prems" True tile run
      by (simp add: fill_column_log.simps [of world x y col recs p])
    from "1.IH" [OF True tile [symmetric] refl run [symmetric] refl rest]
    obtain new2 where
      recs': "recs' = (recs @ [?r]) @ new2" and
      below: "\<forall>j < ?y2 + 1. js_get col' j = js_get col2 j" and
      copied: "list_all (\<lambda>(x', yy, t, r). x' = x \<and> list_all (\<lambda>k. js_get col' (yy + k) = Some t) [0..<Suc (nat r)]) new2" and
      count: "runs_fit world new2 \<longrightarrow> int (length new2) + runs_total new2 = max 0 (height world - int (?y2 + 1))"
      by blast
    have col2_run: "js_get col2 (y + k) = Some tile" if "k \<le> nat (RLE p1)" for k
      using get that by (simp add: js_get_js_set)
    have a: "recs' = recs @ (?r # new2)" using recs' by simp
    have b: "\<forall>j < y. js_get col' j = js_get col j"
      using below get by (simp add: js_get_js_set)
    have c: "list_all (\<lambda>k. js_get col' (y + k) = Some tile) [0..<Suc (nat (RLE p1))]"
      using below col2_run by (simp add: list_all_iff)
    have d: "runs_fit world (?r # new2) \<longrightarrow>
        int (length (?r # new2)) + runs_total (?r # new2) = max 0 (height world - int y)"
    proof
      assume fit: "runs_fit world (?r # new2)"
      then have "int y + RLE p1 < height world" "runs_fit world new2"
        by (simp_all add: runs_fit_def)
      moreover have "runs_total (?r # new2) = max 0 (RLE p1) + runs_total new2"
        by (simp add: runs_total_def)
      moreover have "int (nat (RLE p1)) = max 0 (RLE p1)" by simp
      ultimately show "int (length (?r # new2)) + runs_total (?r # new2) = max 0 (height world - int y)"
        using count True by simp
    qed
    from a b c d copied show ?thesis
      by (intro exI [of _ "?r # new2"]) simp
  qed
qed


lemma runs_total_Cons [simp]: "runs_total ((x, y, t, r) # recs) = max 0 r + runs_total recs"
  by (simp add: runs_total_def)

lemma fill_columns_log_spec:
  assumes "fill_columns_log world x data recs p = (Inr (data', recs'), p')" and "length data = x"
  shows "\<exists>new cols. recs' = recs @ new \<and> data' = data @ cols \<and>
           list_all (\<lambda>(x', yy, t, r). x' < length data' \<and>
              list_all (\<lambda>k. js_get (data' ! x') (yy + k) = Some t) [0..<Suc (nat r)]) new \<and>
           (runs_fit world new \<longrightarrow>
              int (length new) + runs_total new = max 0 (width world - int x) * height world)"
  using assms
proof (induction world x data recs p rule: fill_columns_log.induct)
  case (1 world x data recs p)
  show ?case
  proof (cases "int x < width world")
    case False
    with "1.prems" have "recs' = recs" "data' = data"
      by (simp_all add: fill_columns_log.simps [of world x data recs p])
    with False show ?thesis
      by (intro exI [of _ "[]"]) (simp add: runs_total_def)
  next
    case True
    with "1.prems" have ok: "array_length_ok (height world)"
      by (auto simp: fill_columns_log.simps [of world x data recs p] split: if_splits)
    with True "1.prems" obtain col recs1 p1 where
      column: "fill_column_log world x 0 (replicate (nat (height world)) None) recs p = (Inr (col, recs1), p1)" and
      rest: "fill_columns_log world (x + 1) (data @ [col]) recs1 p1 = (Inr (data', recs'), p')"
      by (auto simp: fill_columns_log.simps [of world x data recs p] split: prod.splits sum.splits)
    from fill_column_log_spec [OF column] obtain new1 where
      recs1: "recs1 = recs @ new1" and
      copied1: "list_all (\<lambda>(x', yy, t, r). x' = x \<and> list_all (\<lambda>k. js_get col (yy + k) = Some t) [0..<Suc (nat r)]) new1" and
      count1: "runs_fit world new1 \<longrightarrow> int (length new1) + runs_total new1 = max 0 (height world - int 0)"
      by blast
    have len: "length (data @ [col]) = x + 1" using "1.prems"(2) by simp
    from "1.IH" [OF True ok column [symmetric] refl refl rest len] obtain new2 cols2 where
      recs': "recs' = recs1 @ new2" and
      data': "data' = (data @ [col]) @ cols2" and
      copied2: "list_all (\<lambda>(x', yy, t, r). x' < length data' \<and>
              list_all (\<lambda>k. js_get (data' ! x') (yy + k) = Some t) [0..<Suc (nat r)]) new2" and
      count2: "runs_fit world new2 \<longrightarrow>
              int (length new2) + runs_total new2 = max 0 (width world - int (x + 1)) * height world"
      by blast
    have at_x: "data' ! x = col" "x < length data'"
      using data' "1.prems"(2) by (simp_all add: nth_append)
    have a: "recs' = recs @ (new1 @ new2)" using recs' recs1 by simp
    have b: "data' = data @ ([col] @ cols2)" using data' by simp
    have c: "list_all (\<lambda>(x', yy, t, r). x' < length data' \<and>
              list_all (\<lambda>k. js_get (data' ! x') (yy + k) = Some t) [0..<Suc (nat r)]) (new1 @ new2)"
      using copied1 copied2 at_x by (auto simp: list_all_iff)
    have d: "runs_fit world (new1 @ new2) \<longrightarrow>
        int (length (new1 @ new2)) + runs_total (new1 @ new2) = max 0 (width world - int x) * height world"
    proof
      assume "runs_fit world (new1 @ new2)"
      then have c1: "int (length new1) + runs_total new1 = height world"
        and c2: "int (length new2) + runs_total new2 = (width world - int x - 1) * height world"
        using count1 count2 ok True by (simp_all add: array_length_ok_def)
      have "int (length (new1 @ new2)) + runs_total (new1 @ new2) =
          (int (length new1) + runs_total new1) + (int (length new2) + runs_total new2)"
        by simp
      also have "\<dots> = (width world - int x) * height world"
        unfolding c1 c2 by (simp add: algebra_simps)
      finally show "int (length (new1 @ new2)) + runs_total (new1 @ new2) = max 0 (width world - int x) * height world"
        using True by simp
    qed
    from a b c d show ?thesis by blast
  qed
qed

lemma fill_column_forget_log:
  "fill_column world y col p = forget_log (fill_column_log world x y col recs p)"
proof (induction world x y col recs p rule: fill_column_log.induct)
  case (1 world x y col recs p)
  show ?case
  proof (cases "int y < height world")
    case False
    then show ?thesis
      by (simp add: fill_column.simps [of world y col p]
          fill_column_log.simps [of world x y col recs p] forget_log_def)
  next
    case True
    show ?thesis
    proof (cases "parseTileData world p")
      case (Pair r p1)
      show ?thesis
      proof (cases r)
        case (Inl e)
        with True Pair show ?thesis
          by (simp add: fill_column.simps [of world y col p]
              fill_column_log.simps [of world x y col recs p] forget_log_def)
      next
        case (Inr tile)
        obtain y2 col2 p2 where run: "copy_run y (js_set col y (Some tile)) p1 = (y2, col2, p2)"
          by (cases "copy_run y (js_set col y (Some tile)) p1") auto
        from "1.IH" [OF True Pair [symmetric] Inr run [symmetric] refl]
        show ?thesis
          using True Pair Inr run
          by (simp add: fill_column.simps [of world y col p]
              fill_column_log.simps [of world x y col recs p])
      qed
    qed
  qed
qed

lemma fill_columns_forget_log:
  "fill_columns world x data p = forget_log (fill_columns_log world x data recs p)"
proof (induction world x data recs p rule: fill_columns_log.induct)
  case (1 world x data recs p)
  show ?case
  proof (cases "int x < width world \<and> array_length_ok (height world)")
    case False
    then show ?thesis
      by (auto simp: fill_columns.simps [of world x data p]
          fill_columns_log.simps [of world x data recs p] forget_log_def)
  next
    case True
    let ?c = "fill_column_log world x 0 (replicate (nat (height world)) None) recs p"
    have col: "fill_column world 0 (replicate (nat (height world)) None) p = forget_log ?c"
      by (rule fill_column_forget_log)
    show ?thesis
    proof (cases ?c)
      case (Pair r p1)
      show ?thesis
      proof (cases r)
        case (Inl e)
        with True Pair col show ?thesis
          by (simp add: fill_columns.simps [of world x data p]
              fill_columns_log.simps [of world x data recs p] forget_log_def)
      next
        case (Inr cr)
        obtain c recs1 where cr: "cr = (c, recs1)" by (cases cr)
        from True have t1: "int x < width world" and t2: "array_length_ok (height world)" by simp_all
        from "1.IH" [OF t1 t2 Pair [symmetric] Inr cr [symmetric]]
        show ?thesis
          using True Pair Inr cr col
          by (simp add: fill_columns.simps [of world x data p]
              fill_columns_log.simps [of world x data recs p] forget_log_def)
      qed
    qed
  qed
qed

lemma parseWorldTiles_forget_log:
  "parseWorldTiles world p = forget_log (parseWorldTiles_log world p)"
  by (simp add: parseWorldTiles_def parseWorldTiles_log_def fill_columns_forget_log [of _ _ _ _ "[]"]
      forget_log_def)

text \<open>
  C1 (as amended). In a grid decode that returns, the grid is the one
  \<^verbatim>\<open>parseWorldTiles\<close> returns, and every record's tile stands at the record's cell and, for
  a run count \<open>R > 0\<close>, at the \<open>R\<close> cells below it in the same column. When every run
  ends inside its column (\<open>y + R < height\<close>), the number of records read is
  \<open>width * height\<close> minus the sum of the run counts, a count that is not positive
  counting as 0. A run that passes the end of its column lengthens the column array
  instead, and then fewer cells are left to the other records than the count assumes.
\<close>

theorem run_length_expansion:
  assumes "parseWorldTiles_log world p = (Inr (data, recs), p')"
  shows "parseWorldTiles world p = (Inr data, p') \<and>
         runs_copied data recs \<and>
         (runs_fit world recs \<longrightarrow> int (length recs) = width world * height world - runs_total recs)"
proof -
  from assms have ok: "array_length_ok (width world)"
    and run: "fill_columns_log world 0 [] [] (p\<lparr>RLE := 0\<rparr>) = (Inr (data, recs), p')"
    by (auto simp: parseWorldTiles_log_def split: if_splits)
  from fill_columns_log_spec [OF run] obtain new cols where
    "recs = [] @ new" and
    "list_all (\<lambda>(x', yy, t, r). x' < length data \<and>
              list_all (\<lambda>k. js_get (data ! x') (yy + k) = Some t) [0..<Suc (nat r)]) new" and
    "runs_fit world new \<longrightarrow>
              int (length new) + runs_total new = max 0 (width world - int 0) * height world"
    by auto
  moreover have "parseWorldTiles world p = (Inr data, p')"
    using assms by (simp add: parseWorldTiles_forget_log forget_log_def)
  ultimately show ?thesis
    using ok by (auto simp: runs_copied_def array_length_ok_def)
qed

theorem run_length_expansion_witness:
  "fst (parseWorldTiles_log world_2x2 (new_parser [64, 1, 64, 1])) =
     Inr ([[Some emptyTile, Some emptyTile], [Some emptyTile, Some emptyTile]],
          [(0, 0, emptyTile, 1), (1, 0, emptyTile, 1)]) \<and>
   runs_fit world_2x2 [(0, 0, emptyTile, 1), (1, 0, emptyTile, 1)] \<and>
   runs_copied [[Some emptyTile, Some emptyTile], [Some emptyTile, Some emptyTile]]
     [(0, 0, emptyTile, 1), (1, 0, emptyTile, 1)] \<and>
   int (length [(0::nat, 0::nat, emptyTile, 1::int), (1, 0, emptyTile, 1)]) =
     width world_2x2 * height world_2x2 - runs_total [(0, 0, emptyTile, 1), (1, 0, emptyTile, 1)]"
proof -
  let ?run = "parseWorldTiles_log world_2x2 (new_parser [64, 1, 64, 1])"
  have e: "fst ?run =
     Inr ([[Some emptyTile, Some emptyTile], [Some emptyTile, Some emptyTile]],
          [(0, 0, emptyTile, 1), (1, 0, emptyTile, 1)])"
    by code_simp
  have f: "runs_fit world_2x2 [(0, 0, emptyTile, 1), (1, 0, emptyTile, 1)]"
    by (simp add: runs_fit_def world_2x2_def)
  from e have "?run =
     (Inr ([[Some emptyTile, Some emptyTile], [Some emptyTile, Some emptyTile]],
          [(0, 0, emptyTile, 1), (1, 0, emptyTile, 1)]), snd ?run)"
    by (simp add: prod_eq_iff)
  from run_length_expansion [OF this] e f show ?thesis
    by blast
qed

text \<open>
  The claim as stated fails: in a world of one column and one row the record \<open>64, 1\<close>
  has the run count 1, which passes the end of the column. One record is read, the
  column array grows to two cells, and \<open>width * height\<close> minus the run count is 0.
\<close>

lemmas grid_eval =
  parseWorldTiles_log_def fill_columns_log.simps fill_column_log.simps copy_run.simps
  array_length_ok_def js_set_def js_get_def world_2x2_def

theorem run_length_expansion_counterexample:
  "fst (parseWorldTiles_log world_1x1 (new_parser [64, 1])) =
     Inr ([[Some emptyTile, Some emptyTile]], [(0, 0, emptyTile, 1)]) \<and>
   fst (parseWorldTiles world_1x1 (new_parser [64, 1])) = Inr [[Some emptyTile, Some emptyTile]] \<and>
   int (length [(0::nat, 0::nat, emptyTile, 1::int)]) \<noteq> width world_1x1 * height world_1x1 - 1"
  by (simp add: grid_eval parseWorldTiles_def fill_columns.simps fill_column.simps tile_eval cursor_eval)

section \<open>The format validator\<close>

lemma progress_set_offset_cases:
  "set_offset v p = p\<lparr>offset := v\<rparr> \<or>
   (\<exists>h r. set_offset v p = p\<lparr>offset := v, progress := h, reported := r\<rparr>)"
  by (auto simp: set_offset_def split: option.splits)

lemma typed_read_At:
  assumes "offset p = At n"
  shows "typed_read w dec p =
     ((if ignoreBounds p \<and> int (length (buffer p)) < n + int w then Inr 0
       else if n < 0 \<or> int (length (buffer p)) < n + int w then Inl OutOfBounds
       else Inr (dec (take w (drop (nat n) (buffer p))))),
      set_offset (At (n + int w)) p)"
  using assms
  by (auto simp: typed_read_def Let_def view_bytes_def split: option.splits)

lemma typed_read_offset:
  "offset (snd (typed_read w dec p)) = offs_add (offset p) (int w)"
  by (simp add: typed_read_state)

lemma readUInt8_At:
  assumes "offset p = At n"
  shows "readUInt8 p =
     ((if ignoreBounds p \<and> int (length (buffer p)) < n + 1 then Inr 0
       else if n < 0 \<or> int (length (buffer p)) < n + 1 then Inl OutOfBounds
       else Inr (uint (buffer p ! nat n))),
      set_offset (At (n + 1)) p)"
proof -
  have "le_uint (take 1 (drop (nat n) (buffer p))) = uint (buffer p ! nat n)"
    if "0 \<le> n" "n + 1 \<le> int (length (buffer p))"
  proof -
    from that have "nat n < length (buffer p)" by simp
    then have "take 1 (drop (nat n) (buffer p)) = [buffer p ! nat n]"
      by (simp add: take_Suc_conv_app_nth [of 0] hd_drop_conv_nth take_Suc)
    then show ?thesis by (simp add: le_uint_def)
  qed
  with typed_read_At [OF assms, of 1 le_uint] show ?thesis
    by (auto simp: readUInt8_def)
qed

lemma readBytes_loop_in_bounds:
  assumes "offset p = At n" "0 \<le> n" "n + (k - i) \<le> int (length (buffer p))" "i \<le> k"
  shows "\<exists>p'. readBytes_loop i k acc p =
            (Inr (acc @ map uint (take (nat (k - i)) (drop (nat n) (buffer p)))), p') \<and>
          offset p' = At (n + (k - i)) \<and> buffer p' = buffer p \<and> ignoreBounds p' = ignoreBounds p"
  using assms
proof (induction i k acc p arbitrary: n rule: readBytes_loop.induct)
  case (1 i k acc p)
  show ?case
  proof (cases "i < k")
    case False
    with "1.prems" show ?thesis
      by (subst readBytes_loop.simps) simp
  next
    case True
    let ?b = "uint (buffer p ! nat n)"
    let ?p1 = "set_offset (At (n + 1)) p"
    have rd: "readUInt8 p = (Inr ?b, ?p1)"
      using readUInt8_At [OF "1.prems"(1)] "1.prems" True by auto
    have "offset ?p1 = At (n + 1)" "0 \<le> n + 1" "n + 1 + (k - (i + 1)) \<le> int (length (buffer ?p1))" "i + 1 \<le> k"
      using "1.prems" True by simp_all
    from "1.IH" [OF True rd [symmetric] refl this]
    obtain p' where
      run: "readBytes_loop (i + 1) k (acc @ [?b]) ?p1 =
          (Inr ((acc @ [?b]) @ map uint (take (nat (k - (i + 1))) (drop (nat (n + 1)) (buffer ?p1)))), p')" and
      st: "offset p' = At (n + 1 + (k - (i + 1)))" "buffer p' = buffer ?p1" "ignoreBounds p' = ignoreBounds ?p1"
      by blast
    have "nat n < length (buffer p)" using "1.prems" True by simp
    then have "drop (nat n) (buffer p) = buffer p ! nat n # drop (nat (n + 1)) (buffer p)"
      using "1.prems"(2) by (simp add: Cons_nth_drop_Suc nat_add_distrib)
    moreover have "nat (k - i) = Suc (nat (k - (i + 1)))" using True by simp
    ultimately have "map uint (take (nat (k - i)) (drop (nat n) (buffer p))) =
        ?b # map uint (take (nat (k - (i + 1))) (drop (nat (n + 1)) (buffer p)))"
      by simp
    with run st True rd show ?thesis
      by (simp add: readBytes_loop.simps [of i k acc p])
  qed
qed


lemma steadyD:
  assumes "steady m" "m p = (r, p')"
  shows "buffer p' = buffer p" "ignoreBounds p' = ignoreBounds p"
    "offset p = At n \<Longrightarrow> \<exists>n'. offset p' = At n'"
  using assms unfolding steady_def by (metis snd_conv)+

lemma steady_typed_read [simp]: "steady (typed_read w dec)"
  by (simp add: steady_def typed_read_state)

lemma steady_reads [simp]:
  "steady readUInt8" "steady readInt16" "steady readUInt16" "steady readInt32"
  by (simp_all add: readUInt8_def readInt16_def readUInt16_def readInt32_def)

lemma steady_ret [simp]: "steady (ret a)"
  by (simp add: steady_def ret_def)

lemma steady_skipBytes [simp]: "steady (skipBytes k)"
  by (auto simp: steady_def skipBytes_def)

lemma steady_thenDo:
  assumes "steady m" "\<And>a. steady (f a)"
  shows "steady (thenDo m f)"
  unfolding steady_def
proof (intro allI)
  fix p
  obtain r p1 where m: "m p = (r, p1)" by (cases "m p")
  note s1 = steadyD [OF assms(1) m]
  show "buffer (snd (thenDo m f p)) = buffer p \<and> ignoreBounds (snd (thenDo m f p)) = ignoreBounds p \<and>
       (\<forall>n. offset p = At n \<longrightarrow> (\<exists>n'. offset (snd (thenDo m f p)) = At n'))"
  proof (cases r)
    case (Inl e)
    with m s1 show ?thesis by (simp add: thenDo_def)
  next
    case (Inr a)
    obtain r2 p2 where f: "f a p1 = (r2, p2)" by (cases "f a p1")
    note s2 = steadyD [OF assms(2) f]
    from Inr m f s1 s2 show ?thesis
      by (auto simp: thenDo_def)
  qed
qed

lemma steady_readBytes_loop: "steady (readBytes_loop i k acc)"
  unfolding steady_def
proof (intro allI)
  fix p
  show "buffer (snd (readBytes_loop i k acc p)) = buffer p \<and>
        ignoreBounds (snd (readBytes_loop i k acc p)) = ignoreBounds p \<and>
        (\<forall>n. offset p = At n \<longrightarrow> (\<exists>n'. offset (snd (readBytes_loop i k acc p)) = At n'))"
  proof (induction i k acc p rule: readBytes_loop.induct)
    case (1 i k acc p)
    obtain r p1 where rd: "readUInt8 p = (r, p1)" by (cases "readUInt8 p")
    note s1 = steadyD [OF steady_reads(1) rd]
    show ?case
    proof (cases "i < k")
      case False
      then show ?thesis by (simp add: readBytes_loop.simps [of i k acc p])
    next
      case True
      show ?thesis
      proof (cases r)
        case (Inl e)
        with True rd s1 show ?thesis by (simp add: readBytes_loop.simps [of i k acc p])
      next
        case (Inr b)
        from "1.IH" [OF True rd [symmetric] Inr] True rd Inr s1 show ?thesis
          by (auto simp: readBytes_loop.simps [of i k acc p])
      qed
    qed
  qed
qed


lemma steady_readBytes [simp]: "steady (readBytes k)"
  by (simp add: readBytes_def steady_readBytes_loop)

lemma steady_repeat_read:
  assumes "steady m"
  shows "steady (repeat_read i m acc)"
  unfolding steady_def
proof (intro allI)
  fix p
  show "buffer (snd (repeat_read i m acc p)) = buffer p \<and>
        ignoreBounds (snd (repeat_read i m acc p)) = ignoreBounds p \<and>
        (\<forall>n. offset p = At n \<longrightarrow> (\<exists>n'. offset (snd (repeat_read i m acc p)) = At n'))"
    using assms
  proof (induction i m acc p rule: repeat_read.induct)
    case (1 i m acc p)
    obtain r p1 where rd: "m p = (r, p1)" by (cases "m p")
    note s1 = steadyD [OF "1.prems" rd]
    show ?case
    proof (cases "i > 0")
      case False
      then show ?thesis by (simp add: repeat_read.simps [of i m acc p])
    next
      case True
      show ?thesis
      proof (cases r)
        case (Inl e)
        with True rd s1 show ?thesis by (simp add: repeat_read.simps [of i m acc p])
      next
        case (Inr b)
        from "1.IH" [OF True rd [symmetric] Inr "1.prems"] True rd Inr s1 show ?thesis
          by (auto simp: repeat_read.simps [of i m acc p])
      qed
    qed
  qed
qed

lemma steady_parseBitsByte_bytes: "steady (parseBitsByte_bytes i acc)"
  unfolding steady_def
proof (intro allI)
  fix p
  show "buffer (snd (parseBitsByte_bytes i acc p)) = buffer p \<and>
        ignoreBounds (snd (parseBitsByte_bytes i acc p)) = ignoreBounds p \<and>
        (\<forall>n. offset p = At n \<longrightarrow> (\<exists>n'. offset (snd (parseBitsByte_bytes i acc p)) = At n'))"
  proof (induction i acc p rule: parseBitsByte_bytes.induct)
    case (1 i acc p)
    obtain r p1 where rd: "readUInt8 p = (r, p1)" by (cases "readUInt8 p")
    note s1 = steadyD [OF steady_reads(1) rd]
    show ?case
    proof (cases "i > 0")
      case False
      then show ?thesis by (simp add: parseBitsByte_bytes.simps [of i acc p])
    next
      case True
      show ?thesis
      proof (cases r)
        case (Inl e)
        with True rd s1 show ?thesis by (simp add: parseBitsByte_bytes.simps [of i acc p])
      next
        case (Inr b)
        from "1.IH" [OF True rd [symmetric] Inr] True rd Inr s1 show ?thesis
          by (auto simp: parseBitsByte_bytes.simps [of i acc p])
      qed
    qed
  qed
qed

lemma steady_parseBitsByte [simp]: "steady (parseBitsByte sz)"
  unfolding parseBitsByte_def
  by (intro steady_thenDo steady_parseBitsByte_bytes steady_ret)

lemma steadyP_lift: "steady m \<Longrightarrow> steadyP (lift m)"
  unfolding steady_def steadyP_def lift_def
  by (metis prod.collapse)

lemma steadyP_thenDoP:
  assumes "steadyP m" "\<And>a. steadyP (f a)"
  shows "steadyP (thenDoP m f)"
  unfolding steadyP_def
proof (intro allI impI)
  fix p :: parser and n assume at: "offset p = At n"
  with assms(1) obtain r p1 n1 where
    m: "m p = Some (r, p1)" and s1: "offset p1 = At n1" "buffer p1 = buffer p" "ignoreBounds p1 = ignoreBounds p"
    unfolding steadyP_def by blast
  show "\<exists>r p' n'. thenDoP m f p = Some (r, p') \<and> offset p' = At n' \<and> buffer p' = buffer p \<and>
          ignoreBounds p' = ignoreBounds p"
  proof (cases r)
    case (Inl e)
    with m s1 show ?thesis by (simp add: thenDoP_def)
  next
    case (Inr a)
    from assms(2) [of a] s1(1) obtain r2 p2 n2 where
      "f a p1 = Some (r2, p2)" "offset p2 = At n2" "buffer p2 = buffer p1" "ignoreBounds p2 = ignoreBounds p1"
      unfolding steadyP_def by blast
    with Inr m s1 show ?thesis by (simp add: thenDoP_def)
  qed
qed

lemma steadyP_readString_length: "steadyP (readString_length len shift)"
  unfolding steadyP_def
proof (intro allI impI)
  fix p :: parser and n assume "offset p = At n"
  then show "\<exists>r p' n'. readString_length len shift p = Some (r, p') \<and> offset p' = At n' \<and>
      buffer p' = buffer p \<and> ignoreBounds p' = ignoreBounds p"
  proof (induction "nat (int (length (buffer p)) - n)" arbitrary: p n len shift rule: less_induct)
    case less
    let ?p1 = "set_offset (At (n + 1)) p"
    note rd = readUInt8_At [OF less.prems]
    obtain r where r: "readUInt8 p = (r, ?p1)" using rd by simp
    show ?case
    proof (cases r)
      case (Inl e)
      with r show ?thesis
        by (subst readString_length.simps) simp
    next
      case (Inr b)
      show ?thesis
      proof (cases "b AND 128 = 0")
        case True
        with r Inr show ?thesis
          by (subst readString_length.simps) simp
      next
        case False
        with r Inr rd have inb: "0 \<le> n" "n + 1 \<le> int (length (buffer p))"
          by (auto split: if_splits)
        then have "nat (int (length (buffer ?p1)) - (n + 1)) < nat (int (length (buffer p)) - n)"
          by simp
        from less.hyps [OF this, of "len OR push_bit (nat (shift mod 32)) (word_of_int (b AND 127))" "shift + 7"]
        obtain r' p' n' where
          "readString_length (len OR push_bit (nat (shift mod 32)) (word_of_int (b AND 127))) (shift + 7) ?p1 = Some (r', p')"
          "offset p' = At n'" "buffer p' = buffer ?p1" "ignoreBounds p' = ignoreBounds ?p1"
          by auto
        with r Inr False show ?thesis
          by (subst readString_length.simps) simp
      qed
    qed
  qed
qed

lemma steadyP_readString [simp]: "steadyP readString" "steadyP (readString_n k)"
  unfolding readString_def readString_n_def
  by (intro steadyP_thenDoP steadyP_readString_length steadyP_lift steady_readBytes)+

lemma steadyP_preamble: "steadyP preamble"
  unfolding preamble_def
  by (intro steadyP_thenDoP steadyP_lift steady_reads steady_skipBytes steady_repeat_read
      steady_parseBitsByte steadyP_readString steady_ret)

lemma parseNecessaryData_returns: "\<exists>r p'. parseNecessaryData p = Some (r, p')"
proof -
  have "offset (set_offset (At 0) p) = At 0" by simp
  with steadyP_preamble obtain r p1 where "preamble (set_offset (At 0) p) = Some (r, p1)"
    unfolding steadyP_def by blast
  then show ?thesis
    by (cases r) (auto simp: parseNecessaryData_def Let_def split: prod.splits)
qed


lemma thenDoP_Inr:
  "thenDoP m f p = Some (Inr b, p') \<longleftrightarrow> (\<exists>a p1. m p = Some (Inr a, p1) \<and> f a p1 = Some (Inr b, p'))"
  by (auto simp: thenDoP_def split: option.splits prod.splits sum.splits)

lemma lift_Some [simp]: "lift m p = Some r \<longleftrightarrow> m p = r"
  by (auto simp: lift_def)

lemma readBytes_loop_offset:
  assumes "readBytes_loop i k acc p = (Inr bs, p')" "offset p = At n" "i \<le> k"
  shows "offset p' = At (n + (k - i))"
  using assms
proof (induction i k acc p arbitrary: n rule: readBytes_loop.induct)
  case (1 i k acc p)
  show ?case
  proof (cases "i < k")
    case False
    with "1.prems" show ?thesis
      by (simp add: readBytes_loop.simps [of i k acc p])
  next
    case True
    with "1.prems"(1) obtain b p1 where
      rd: "readUInt8 p = (Inr b, p1)" and
      rest: "readBytes_loop (i + 1) k (acc @ [b]) p1 = (Inr bs, p')"
      by (auto simp: readBytes_loop.simps [of i k acc p] split: prod.splits sum.splits)
    from rd "1.prems"(2) have "offset p1 = At (n + 1)"
      using readUInt8_At [of p n] by auto
    from "1.IH" [OF True rd [symmetric] refl rest this] True show ?thesis
      by simp
  qed
qed

lemma preamble_start:
  assumes "preamble p0 = Some (Inr (ver, magic, ftype, rest), p1)"
  shows "\<exists>q1 q2 q3. readInt32 p0 = (Inr ver, q1) \<and> readBytes 7 q1 = (Inr magic, q2) \<and>
           readUInt8 q2 = (Inr ftype, q3)"
  using assms unfolding preamble_def readString_n_def
  by (auto simp: thenDoP_Inr ret_def)

lemma preamble_accepts:
  assumes pre: "preamble p0 = Some (Inr (ver, magic, ftype, rest), p1)"
    and p0: "offset p0 = At 0"
    and ok: "magic = relogic" "ftype = 2"
  shows "12 \<le> length (buffer p0) \<and> header_magic (buffer p0) = relogic \<and>
         header_type (buffer p0) = 2 \<and> ver = header_version (buffer p0)"
proof -
  from preamble_start [OF pre] obtain q1 q2 q3 where
    r1: "readInt32 p0 = (Inr ver, q1)" and
    r2: "readBytes 7 q1 = (Inr magic, q2)" and
    r3: "readUInt8 q2 = (Inr ftype, q3)"
    by blast
  from r1 have q1: "q1 = set_offset (At 4) p0"
    using typed_read_At [OF p0, of 4 le_sint] by (simp add: readInt32_def)
  then have q1s: "offset q1 = At 4" "buffer q1 = buffer p0" "ignoreBounds q1 = ignoreBounds p0"
    by simp_all
  have q2o: "offset q2 = At 11"
    using readBytes_loop_offset [OF r2 [unfolded readBytes_def] q1s(1)] by simp
  have q2b: "buffer q2 = buffer p0"
    using steadyD(1) [OF steady_readBytes r2] q1s by simp
  from r3 ok(2) have len: "12 \<le> length (buffer p0)" and ty: "uint (buffer p0 ! 11) = 2"
    using readUInt8_At [OF q2o] q2b by (auto split: if_splits)
  from len have "4 + (7 - 0) \<le> int (length (buffer q1))" using q1s by simp
  from readBytes_loop_in_bounds [OF q1s(1) _ this, of "[]"] r2
  have "magic = map uint (take 7 (drop 4 (buffer p0)))"
    by (auto simp: readBytes_def q1s)
  moreover from r1 len have "ver = le_sint (take 4 (buffer p0))"
    using typed_read_At [OF p0, of 4 le_sint] by (auto simp: readInt32_def split: if_splits)
  ultimately show ?thesis
    using len ty ok by (simp add: header_magic_def header_type_def header_version_def)
qed

lemma followsD:
  assumes "follows m" "prefix_of p q" "m p = (Inr a, p')"
  shows "\<exists>q'. m q = (Inr a, q') \<and> prefix_of p' q'"
  using assms unfolding follows_def by blast

lemma prefix_of_set_offset: "prefix_of p q \<Longrightarrow> prefix_of (set_offset v p) (set_offset v q)"
  by (simp add: prefix_of_def)

lemma view_bytes_prefix:
  assumes "view_bytes (take k buf) i w = Some bs"
  shows "view_bytes buf i w = Some bs"
proof (cases "to_index i")
  case None
  with assms show ?thesis by (simp add: view_bytes_def)
next
  case (Some j)
  with assms have le: "j + w \<le> length (take k buf)" and bs: "bs = take w (drop j (take k buf))"
    by (auto simp: view_bytes_def split: if_splits)
  from le have le': "j + w \<le> k" "j + w \<le> length buf" by simp_all
  then have "take w (drop j (take k buf)) = take w (drop j buf)"
    by (simp add: drop_take min_def)
  with Some le' bs show ?thesis by (simp add: view_bytes_def)
qed

lemma follows_typed_read [simp]: "follows (typed_read w dec)"
  unfolding follows_def
proof (intro allI impI, elim conjE)
  fix p q a p'
  assume pq: "prefix_of p q" and rd: "typed_read w dec p = (Inr a, p')"
  from pq obtain k where k: "buffer p = take k (buffer q)" and
    o: "offset p = offset q" and strict: "\<not> ignoreBounds p" "\<not> ignoreBounds q"
    by (auto simp: prefix_of_def)
  let ?v = "offs_add (offset p) (int w)"
  from rd strict obtain bs where
    bs: "view_bytes (buffer p) (offs_add ?v (- int w)) w = Some bs" and a: "a = dec bs" and
    p': "p' = set_offset ?v p"
    by (auto simp: typed_read_def Let_def split: option.splits)
  from bs k have "view_bytes (take k (buffer q)) (offs_add ?v (- int w)) w = Some bs"
    by simp
  then have "view_bytes (buffer q) (offs_add ?v (- int w)) w = Some bs"
    by (rule view_bytes_prefix)
  with strict o a have "typed_read w dec q = (Inr a, set_offset ?v q)"
    by (simp add: typed_read_def Let_def)
  moreover have "prefix_of p' (set_offset ?v q)"
    unfolding p' using pq by (rule prefix_of_set_offset)
  ultimately show "\<exists>q'. typed_read w dec q = (Inr a, q') \<and> prefix_of p' q'" by blast
qed

lemma follows_reads [simp]:
  "follows readUInt8" "follows readInt16" "follows readUInt16" "follows readInt32"
  by (simp_all add: readUInt8_def readInt16_def readUInt16_def readInt32_def)

lemma follows_ret [simp]: "follows (ret a)"
  by (simp add: follows_def)

lemma follows_skipBytes [simp]: "follows (skipBytes k)"
  unfolding follows_def
proof (intro allI impI, elim conjE)
  fix p q :: parser and a :: unit and p'
  assume pq: "prefix_of p q" and run: "skipBytes k p = (Inr a, p')"
  from pq have o: "offset p = offset q" by (simp add: prefix_of_def)
  from run have "p' = set_offset (offs_add (offset p) k) p" by (simp add: skipBytes_def)
  with prefix_of_set_offset [OF pq, of "offs_add (offset p) k"] o
  show "\<exists>q'. skipBytes k q = (Inr a, q') \<and> prefix_of p' q'"
    by (simp add: skipBytes_def)
qed

lemma follows_thenDo:
  assumes "follows m" "\<And>a. follows (f a)"
  shows "follows (thenDo m f)"
  unfolding follows_def
proof (intro allI impI, elim conjE)
  fix p q b p'
  assume pq: "prefix_of p q" and run: "thenDo m f p = (Inr b, p')"
  from run obtain a p1 where m: "m p = (Inr a, p1)" and f: "f a p1 = (Inr b, p')"
    by (auto simp: thenDo_Inr)
  from followsD [OF assms(1) pq m] obtain q1 where "m q = (Inr a, q1)" "prefix_of p1 q1" by blast
  moreover from followsD [OF assms(2) this(2) f] obtain q' where "f a q1 = (Inr b, q')" "prefix_of p' q'"
    by blast
  ultimately show "\<exists>q'. thenDo m f q = (Inr b, q') \<and> prefix_of p' q'"
    by (auto simp: thenDo_Inr)
qed


lemma follows_readBytes_loop: "follows (readBytes_loop i k acc)"
  unfolding follows_def
proof (intro allI impI, elim conjE)
  fix p q a p'
  assume "prefix_of p q" "readBytes_loop i k acc p = (Inr a, p')"
  then show "\<exists>q'. readBytes_loop i k acc q = (Inr a, q') \<and> prefix_of p' q'"
  proof (induction i k acc p arbitrary: q rule: readBytes_loop.induct)
    case (1 i k acc p)
    show ?case
    proof (cases "i < k")
      case False
      with "1.prems"(2) have "a = acc" "p' = p"
        by (simp_all add: readBytes_loop.simps [of i k acc p])
      moreover from False have "readBytes_loop i k acc q = (Inr acc, q)"
        by (simp add: readBytes_loop.simps [of i k acc q])
      ultimately show ?thesis using "1.prems"(1) by simp
    next
      case True
      with "1.prems"(2) obtain b p1 where
        rd: "readUInt8 p = (Inr b, p1)" and
        rest: "readBytes_loop (i + 1) k (acc @ [b]) p1 = (Inr a, p')"
        by (auto simp: readBytes_loop.simps [of i k acc p] split: prod.splits sum.splits)
      from followsD [OF follows_reads(1) "1.prems"(1) rd] obtain q1 where
        q1: "readUInt8 q = (Inr b, q1)" "prefix_of p1 q1" by blast
      from "1.IH" [OF True rd [symmetric] refl q1(2) rest] True q1(1) show ?thesis
        by (simp add: readBytes_loop.simps [of i k acc q])
    qed
  qed
qed

lemma follows_repeat_read:
  assumes "follows m"
  shows "follows (repeat_read i m acc)"
  unfolding follows_def
proof (intro allI impI, elim conjE)
  fix p q a p'
  assume "prefix_of p q" "repeat_read i m acc p = (Inr a, p')"
  then show "\<exists>q'. repeat_read i m acc q = (Inr a, q') \<and> prefix_of p' q'"
    using assms
  proof (induction i m acc p arbitrary: q rule: repeat_read.induct)
    case (1 i m acc p)
    show ?case
    proof (cases "i > 0")
      case False
      with "1.prems"(2) have "a = acc" "p' = p"
        by (simp_all add: repeat_read.simps [of i m acc p])
      moreover from False have "repeat_read i m acc q = (Inr acc, q)"
        by (simp add: repeat_read.simps [of i m acc q])
      ultimately show ?thesis using "1.prems"(1) by simp
    next
      case True
      with "1.prems"(2) obtain b p1 where
        rd: "m p = (Inr b, p1)" and
        rest: "repeat_read (i - 1) m (acc @ [b]) p1 = (Inr a, p')"
        by (auto simp: repeat_read.simps [of i m acc p] split: prod.splits sum.splits)
      from followsD [OF "1.prems"(3) "1.prems"(1) rd] obtain q1 where
        q1: "m q = (Inr b, q1)" "prefix_of p1 q1" by blast
      from "1.IH" [OF True rd [symmetric] refl q1(2) rest "1.prems"(3)] True q1(1) show ?thesis
        by (simp add: repeat_read.simps [of i m acc q])
    qed
  qed
qed

lemma follows_parseBitsByte_bytes: "follows (parseBitsByte_bytes i acc)"
  unfolding follows_def
proof (intro allI impI, elim conjE)
  fix p q a p'
  assume "prefix_of p q" "parseBitsByte_bytes i acc p = (Inr a, p')"
  then show "\<exists>q'. parseBitsByte_bytes i acc q = (Inr a, q') \<and> prefix_of p' q'"
  proof (induction i acc p arbitrary: q rule: parseBitsByte_bytes.induct)
    case (1 i acc p)
    show ?case
    proof (cases "i > 0")
      case False
      with "1.prems"(2) have "a = acc" "p' = p"
        by (simp_all add: parseBitsByte_bytes.simps [of i acc p])
      moreover from False have "parseBitsByte_bytes i acc q = (Inr acc, q)"
        by (simp add: parseBitsByte_bytes.simps [of i acc q])
      ultimately show ?thesis using "1.prems"(1) by simp
    next
      case True
      with "1.prems"(2) obtain b p1 where
        rd: "readUInt8 p = (Inr b, p1)" and
        rest: "parseBitsByte_bytes (i - 8) (acc @ [b]) p1 = (Inr a, p')"
        by (auto simp: parseBitsByte_bytes.simps [of i acc p] split: prod.splits sum.splits)
      from followsD [OF follows_reads(1) "1.prems"(1) rd] obtain q1 where
        q1: "readUInt8 q = (Inr b, q1)" "prefix_of p1 q1" by blast
      from "1.IH" [OF True rd [symmetric] refl q1(2) rest] True q1(1) show ?thesis
        by (simp add: parseBitsByte_bytes.simps [of i acc q])
    qed
  qed
qed

lemma follows_parseBitsByte [simp]: "follows (parseBitsByte sz)"
  unfolding parseBitsByte_def
  by (intro follows_thenDo follows_parseBitsByte_bytes follows_ret)

lemma follows_readBytes [simp]: "follows (readBytes k)"
  by (simp add: readBytes_def follows_readBytes_loop)

lemma followsP_lift: "follows m \<Longrightarrow> followsP (lift m)"
  unfolding follows_def followsP_def by simp

lemma followsP_thenDoP:
  assumes "followsP m" "\<And>a. followsP (f a)"
  shows "followsP (thenDoP m f)"
  unfolding followsP_def
proof (intro allI impI, elim conjE)
  fix p q b p'
  assume pq: "prefix_of p q" and run: "thenDoP m f p = Some (Inr b, p')"
  from run obtain a p1 where m: "m p = Some (Inr a, p1)" and f: "f a p1 = Some (Inr b, p')"
    by (auto simp: thenDoP_Inr)
  from assms(1) pq m obtain q1 where q1: "m q = Some (Inr a, q1)" "prefix_of p1 q1"
    unfolding followsP_def by blast
  from assms(2) [of a] q1(2) f obtain q' where "f a q1 = Some (Inr b, q')" "prefix_of p' q'"
    unfolding followsP_def by blast
  with q1 show "\<exists>q'. thenDoP m f q = Some (Inr b, q') \<and> prefix_of p' q'"
    by (auto simp: thenDoP_Inr)
qed

lemma readString_length_follows:
  assumes "readString_length len shift p = Some (Inr a, p')" and "prefix_of p q"
  shows "\<exists>q'. readString_length len shift q = Some (Inr a, q') \<and> prefix_of p' q'"
proof -
  have "\<forall>q a p'. prefix_of p q \<longrightarrow> y = (Inr a, p') \<longrightarrow>
           (\<exists>q'. readString_length len shift q = Some (Inr a, q') \<and> prefix_of p' q')"
    if "readString_length len shift p = Some y" for y
    using that
  proof (rule readString_length.raw_induct
      [where P = "\<lambda>len shift p y. \<forall>q a p'. prefix_of p q \<longrightarrow> y = (Inr a, p') \<longrightarrow>
           (\<exists>q'. readString_length len shift q = Some (Inr a, q') \<and> prefix_of p' q')", rotated])
    fix rsl :: "32 word \<Rightarrow> int \<Rightarrow> parser \<Rightarrow> ((error + int) \<times> parser) option"
    fix len shift p y
    assume IH: "\<And>len shift p y. rsl len shift p = Some y \<Longrightarrow>
        \<forall>q a p'. prefix_of p q \<longrightarrow> y = (Inr a, p') \<longrightarrow>
           (\<exists>q'. readString_length len shift q = Some (Inr a, q') \<and> prefix_of p' q')"
    assume body: "(case readUInt8 p of
          (Inl e, p1) \<Rightarrow> Some (Inl e, p1)
        | (Inr b, p1) \<Rightarrow>
            if b AND 128 \<noteq> 0
            then rsl (len OR push_bit (nat (shift mod 32)) (word_of_int (b AND 127))) (shift + 7) p1
            else Some (Inr (sint (len OR push_bit (nat (shift mod 32)) (word_of_int (b AND 127)))), p1)) =
        Some y"
    show "\<forall>q a p'. prefix_of p q \<longrightarrow> y = (Inr a, p') \<longrightarrow>
           (\<exists>q'. readString_length len shift q = Some (Inr a, q') \<and> prefix_of p' q')"
    proof (intro allI impI)
      fix q a p'
      assume pq: "prefix_of p q" and y: "y = (Inr a, p')"
      from body y obtain b p1 where rd: "readUInt8 p = (Inr b, p1)"
        by (auto split: prod.splits sum.splits)
      from followsD [OF follows_reads(1) pq rd] obtain q1 where
        q1: "readUInt8 q = (Inr b, q1)" "prefix_of p1 q1" by blast
      let ?len = "len OR push_bit (nat (shift mod 32)) (word_of_int (b AND 127))"
      show "\<exists>q'. readString_length len shift q = Some (Inr a, q') \<and> prefix_of p' q'"
      proof (cases "b AND 128 = 0")
        case True
        with body rd y q1 show ?thesis
          by (subst readString_length.simps) auto
      next
        case False
        with body rd have "rsl ?len (shift + 7) p1 = Some y" by simp
        from IH [OF this, rule_format, OF q1(2) y] False q1(1) show ?thesis
          by (subst readString_length.simps) auto
      qed
    qed
  qed
  with assms show ?thesis by blast
qed

lemma followsP_readString_length: "followsP (readString_length len shift)"
  unfolding followsP_def using readString_length_follows by blast

lemma followsP_readString [simp]: "followsP readString" "followsP (readString_n k)"
  unfolding readString_def readString_n_def
  by (intro followsP_thenDoP followsP_readString_length followsP_lift follows_readBytes)+

lemma followsP_preamble: "followsP preamble"
  unfolding preamble_def
  by (intro followsP_thenDoP followsP_lift follows_reads follows_skipBytes follows_repeat_read
      follows_parseBitsByte followsP_readString follows_ret)

lemma validator_accepts:
  assumes "parseNecessaryData p = Some (Inr w, p')"
  shows "acceptable (buffer p) \<and> version w = header_version (buffer p)"
proof -
  from assms obtain ver magic ftype ptrs imps h wd p1 where
    pre: "preamble (set_offset (At 0) p) = Some (Inr (ver, magic, ftype, ptrs, imps, h, wd), p1)" and
    chk: "magic = relogic" "ftype = 2" "194 \<le> ver" and w: "version w = ver"
    by (auto simp: parseNecessaryData_def Let_def split: option.splits prod.splits sum.splits if_splits)
  from preamble_accepts [OF pre _ chk(1,2)] chk(3) w show ?thesis
    by (simp add: acceptable_def)
qed

lemma validator_rejects:
  assumes "\<not> acceptable (buffer p)"
  shows "\<exists>e p'. parseNecessaryData p = Some (Inl e, p')"
proof -
  from parseNecessaryData_returns obtain r p' where r: "parseNecessaryData p = Some (r, p')"
    by blast
  show ?thesis
  proof (cases r)
    case (Inl e)
    with r show ?thesis by blast
  next
    case (Inr w)
    with r validator_accepts assms show ?thesis by blast
  qed
qed

lemma typed_read_end:
  assumes "typed_read w dec q = (Inr a, p')" "\<not> ignoreBounds p'" "offset p' = At n"
  shows "n \<le> int (length (buffer p'))"
proof -
  let ?v = "offs_add (offset q) (int w)"
  have p': "p' = set_offset ?v q" using assms(1) typed_read_state [of w dec q] by simp
  with assms(3) have v: "?v = At n" by simp
  from assms(1,2) p' obtain bs where "view_bytes (buffer q) (offs_add ?v (- int w)) w = Some bs"
    by (auto simp: typed_read_def Let_def split: option.splits if_splits)
  with v have "0 \<le> n - int w" "nat (n - int w) + w \<le> length (buffer q)"
    by (auto simp: view_bytes_def split: option.splits if_splits)
  with p' show ?thesis by simp
qed

lemma preamble_last:
  assumes "preamble p0 = Some (Inr r, p1)"
  shows "\<exists>q w. readInt32 q = (Inr w, p1)"
  using assms unfolding preamble_def
  by (auto simp: thenDoP_Inr ret_def)

lemma preamble_end_in_bounds:
  assumes "preamble p0 = Some (Inr r, p1)" "offset p0 = At 0" "\<not> ignoreBounds p0"
  shows "\<exists>n. offset p1 = At n \<and> n \<le> int (length (buffer p0))"
proof -
  from steadyP_preamble assms(1,2) obtain n where
    s: "offset p1 = At n" "buffer p1 = buffer p0" "ignoreBounds p1 = ignoreBounds p0"
    unfolding steadyP_def by fastforce
  from preamble_last [OF assms(1)] obtain q w where "readInt32 q = (Inr w, p1)" by blast
  from typed_read_end [OF this [unfolded readInt32_def] _ s(1)] s assms(3) show ?thesis
    by simp
qed


lemma preamble_reads:
  assumes pre: "preamble p0 = Some (Inr (ver, magic, ftype, rest), p1)"
    and p0: "offset p0 = At 0"
  shows "(ftype = 2 \<longrightarrow> 12 \<le> length (buffer p0)) \<and>
         (12 \<le> length (buffer p0) \<longrightarrow>
            ver = header_version (buffer p0) \<and> magic = header_magic (buffer p0) \<and>
            ftype = header_type (buffer p0))"
proof -
  from preamble_start [OF pre] obtain q1 q2 q3 where
    r1: "readInt32 p0 = (Inr ver, q1)" and
    r2: "readBytes 7 q1 = (Inr magic, q2)" and
    r3: "readUInt8 q2 = (Inr ftype, q3)"
    by blast
  from r1 have q1: "q1 = set_offset (At 4) p0"
    using typed_read_At [OF p0, of 4 le_sint] by (simp add: readInt32_def)
  then have q1s: "offset q1 = At 4" "buffer q1 = buffer p0" "ignoreBounds q1 = ignoreBounds p0"
    by simp_all
  have q2o: "offset q2 = At 11"
    using readBytes_loop_offset [OF r2 [unfolded readBytes_def] q1s(1)] by simp
  have q2b: "buffer q2 = buffer p0"
    using steadyD(1) [OF steady_readBytes r2] q1s by simp
  have a: "12 \<le> length (buffer p0)" if "ftype = 2"
    using r3 that readUInt8_At [OF q2o] q2b by (auto split: if_splits)
  have b: "ver = header_version (buffer p0) \<and> magic = header_magic (buffer p0) \<and>
           ftype = header_type (buffer p0)" if len: "12 \<le> length (buffer p0)"
  proof -
    from len have "4 + (7 - 0) \<le> int (length (buffer q1))" using q1s by simp
    from readBytes_loop_in_bounds [OF q1s(1) _ this, of "[]"] r2
    have "magic = map uint (take 7 (drop 4 (buffer p0)))"
      by (auto simp: readBytes_def q1s)
    moreover from r1 len have "ver = le_sint (take 4 (buffer p0))"
      using typed_read_At [OF p0, of 4 le_sint] by (auto simp: readInt32_def split: if_splits)
    moreover from r3 len have "ftype = uint (buffer p0 ! 11)"
      using readUInt8_At [OF q2o] q2b by (auto split: if_splits)
    ultimately show ?thesis
      by (simp add: header_magic_def header_type_def header_version_def)
  qed
  from a b show ?thesis by blast
qed

lemma parseNecessaryData_error:
  assumes "parseNecessaryData p = Some (Inl e, p')"
  shows "e = InvalidFileType \<or>
         (e = VersionTooOld \<and> 12 \<le> length (buffer p) \<and> header_magic (buffer p) = relogic \<and>
          header_type (buffer p) = 2 \<and> header_version (buffer p) < 194)"
proof (cases "e = InvalidFileType")
  case True
  then show ?thesis by simp
next
  case False
  with assms obtain ver magic ftype rest p1 where
    pre: "preamble (set_offset (At 0) p) = Some (Inr (ver, magic, ftype, rest), p1)" and
    chk: "magic = relogic" "ftype = 2" "ver < 194" "e = VersionTooOld"
    by (auto simp: parseNecessaryData_def Let_def split: option.splits prod.splits sum.splits if_splits)
  from preamble_reads [OF pre] chk show ?thesis by simp
qed

text \<open>Unfolding sets for running the validator on a concrete buffer.\<close>

lemmas validator_eval =
  parseNecessaryData_def preamble_def readString_def readString_n_def readString_length.simps
  readBytes_def readBytes_loop.simps repeat_read.simps parseBitsByte_def parseBitsByte_bytes.simps
  skipBytes_def lift_def thenDoP_def relogic_def tiny_file_def world_1x1_def

lemmas header_eval =
  acceptable_def header_magic_def header_type_def header_version_def le_sint_def le_uint_def
  relogic_def tiny_file_def new_parser_def

text \<open>
  C10. The validation succeeds only on buffers that hold at least the twelve bytes of the
  three checked fields, with the magic bytes of \<^verbatim>\<open>"relogic"\<close>, the file type 2 and a version
  of at least 194 (the version it returns); on every other buffer it returns, and with
  an error.
\<close>

theorem validator_acceptance:
  "(\<forall>w p'. parseNecessaryData p = Some (Inr w, p') \<longrightarrow>
       acceptable (buffer p) \<and> version w = header_version (buffer p)) \<and>
   (\<not> acceptable (buffer p) \<longrightarrow> (\<exists>e p'. parseNecessaryData p = Some (Inl e, p')))"
  using validator_accepts validator_rejects by blast

theorem validator_acceptance_witness:
  "parseNecessaryData (new_parser tiny_file) = Some (Inr world_1x1, new_parser tiny_file) \<and>
   acceptable (buffer (new_parser tiny_file)) \<and>
   version world_1x1 = header_version (buffer (new_parser tiny_file)) \<and>
   \<not> acceptable (buffer (new_parser [1, 2, 3])) \<and>
   (\<exists>e p'. parseNecessaryData (new_parser [1, 2, 3]) = Some (Inl e, p'))"
proof -
  have run: "parseNecessaryData (new_parser tiny_file) = Some (Inr world_1x1, new_parser tiny_file)"
    by (simp add: validator_eval cursor_eval)
  have no: "\<not> acceptable (buffer (new_parser [1, 2, 3]))"
    by (simp add: acceptable_def new_parser_def)
  from validator_acceptance [of "new_parser tiny_file"] validator_acceptance [of "new_parser [1, 2, 3]"]
    run no
  show ?thesis by blast
qed

text \<open>
  C5. A buffer with the right magic string and another file type than 2 is rejected with
  \<^verbatim>\<open>Error("Invalid file type")\<close>. A buffer with the right magic string and file type, a
  version below 194 and a complete preamble (every read of the \<^verbatim>\<open>try\<close> block finds its
  bytes; the clause on truncated buffers governs the others) is rejected with the
  version error. A strict parser over a buffer cut inside the preamble, that is over
  the first \<open>k\<close> bytes of a buffer whose preamble ends at a byte \<open>n > k\<close>, rejects it with
  \<^verbatim>\<open>Error("Invalid file type")\<close>. The validator never ends with the cursor's own
  \<^verbatim>\<open>RangeError\<close>.
\<close>

theorem format_rejection:
  "(12 \<le> length (buffer p) \<and> header_magic (buffer p) = relogic \<and> header_type (buffer p) \<noteq> 2 \<longrightarrow>
      (\<exists>p'. parseNecessaryData p = Some (Inl InvalidFileType, p'))) \<and>
   (12 \<le> length (buffer p) \<and> header_magic (buffer p) = relogic \<and> header_type (buffer p) = 2 \<and>
    header_version (buffer p) < 194 \<and>
    (\<exists>r p1. preamble (set_offset (At 0) p) = Some (Inr r, p1)) \<longrightarrow>
      (\<exists>p'. parseNecessaryData p = Some (Inl VersionTooOld, p'))) \<and>
   (\<forall>full k r q n.
      \<not> ignoreBounds p \<and> buffer p = take k full \<and>
      preamble (set_offset (At 0) (p\<lparr>buffer := full\<rparr>)) = Some (Inr r, q) \<and>
      offset q = At n \<and> int k < n \<longrightarrow>
      (\<exists>p'. parseNecessaryData p = Some (Inl InvalidFileType, p'))) \<and>
   (\<forall>p'. parseNecessaryData p \<noteq> Some (Inl OutOfBounds, p'))"
proof (intro conjI allI impI)
  assume a: "12 \<le> length (buffer p) \<and> header_magic (buffer p) = relogic \<and> header_type (buffer p) \<noteq> 2"
  then have "\<not> acceptable (buffer p)" by (simp add: acceptable_def)
  with validator_rejects obtain e p' where e: "parseNecessaryData p = Some (Inl e, p')"
    by blast
  from parseNecessaryData_error [OF e] a have "e = InvalidFileType" by auto
  with e show "\<exists>p'. parseNecessaryData p = Some (Inl InvalidFileType, p')" by blast
next
  assume b: "12 \<le> length (buffer p) \<and> header_magic (buffer p) = relogic \<and> header_type (buffer p) = 2 \<and>
    header_version (buffer p) < 194 \<and>
    (\<exists>r p1. preamble (set_offset (At 0) p) = Some (Inr r, p1))"
  then obtain ver magic ftype rest p1 where
    pre: "preamble (set_offset (At 0) p) = Some (Inr (ver, magic, ftype, rest), p1)"
    by (metis prod_cases3)
  from preamble_reads [OF pre] b have "magic = relogic" "ftype = 2" "ver < 194" by simp_all
  with pre show "\<exists>p'. parseNecessaryData p = Some (Inl VersionTooOld, p')"
    by (cases rest) (auto simp: parseNecessaryData_def Let_def split: prod.splits)
next
  fix full k r q n
  assume c: "\<not> ignoreBounds p \<and> buffer p = take k full \<and>
      preamble (set_offset (At 0) (p\<lparr>buffer := full\<rparr>)) = Some (Inr r, q) \<and>
      offset q = At n \<and> int k < n"
  let ?p0 = "set_offset (At 0) p" and ?q0 = "set_offset (At 0) (p\<lparr>buffer := full\<rparr>)"
  have rel: "prefix_of ?p0 ?q0"
    using c by (auto simp: prefix_of_def)
  from steadyP_preamble obtain res p1 where run: "preamble ?p0 = Some (res, p1)"
    unfolding steadyP_def by (metis offset_set_offset)
  show "\<exists>p'. parseNecessaryData p = Some (Inl InvalidFileType, p')"
  proof (cases res)
    case (Inl e)
    with run show ?thesis by (simp add: parseNecessaryData_def)
  next
    case (Inr r')
    with run followsP_preamble rel obtain q' where
      "preamble ?q0 = Some (Inr r', q')" "prefix_of p1 q'"
      unfolding followsP_def by blast
    with c have "offset p1 = At n" by (simp add: prefix_of_def)
    moreover from preamble_end_in_bounds [OF run [unfolded Inr]] c obtain m where
      "offset p1 = At m" "m \<le> int (length (buffer p))" by auto
    ultimately have "n \<le> int (length (take k full))" using c by simp
    then have "n \<le> int k" by simp
    with c show ?thesis by linarith
  qed
next
  fix p'
  show "parseNecessaryData p \<noteq> Some (Inl OutOfBounds, p')"
    using parseNecessaryData_error [of p OutOfBounds p'] by auto
qed


theorem format_rejection_witness:
  "(12 \<le> length (buffer (new_parser (tiny_file[11 := 3]))) \<and>
    header_magic (buffer (new_parser (tiny_file[11 := 3]))) = relogic \<and>
    header_type (buffer (new_parser (tiny_file[11 := 3]))) \<noteq> 2 \<and>
    (\<exists>p'. parseNecessaryData (new_parser (tiny_file[11 := 3])) = Some (Inl InvalidFileType, p'))) \<and>
   (12 \<le> length (buffer (new_parser (tiny_file[0 := 100, 1 := 0]))) \<and>
    header_magic (buffer (new_parser (tiny_file[0 := 100, 1 := 0]))) = relogic \<and>
    header_type (buffer (new_parser (tiny_file[0 := 100, 1 := 0]))) = 2 \<and>
    header_version (buffer (new_parser (tiny_file[0 := 100, 1 := 0]))) < 194 \<and>
    (\<exists>r p1. preamble (set_offset (At 0) (new_parser (tiny_file[0 := 100, 1 := 0]))) = Some (Inr r, p1)) \<and>
    (\<exists>p'. parseNecessaryData (new_parser (tiny_file[0 := 100, 1 := 0])) = Some (Inl VersionTooOld, p'))) \<and>
   (\<not> ignoreBounds (new_parser (take 50 tiny_file)) \<and>
    buffer (new_parser (take 50 tiny_file)) = take 50 tiny_file \<and>
    preamble (set_offset (At 0) ((new_parser (take 50 tiny_file))\<lparr>buffer := tiny_file\<rparr>)) =
      Some (Inr (279, relogic, 2, [0], [], 1, 1), (new_parser tiny_file)\<lparr>offset := At 82\<rparr>) \<and>
    offset ((new_parser tiny_file)\<lparr>offset := At 82\<rparr>) = At 82 \<and> int 50 < 82 \<and>
    (\<exists>p'. parseNecessaryData (new_parser (take 50 tiny_file)) = Some (Inl InvalidFileType, p')))"
proof -
  let ?A = "new_parser (tiny_file[11 := 3])"
  let ?B = "new_parser (tiny_file[0 := 100, 1 := 0])"
  let ?C = "new_parser (take 50 tiny_file)"
  have a: "12 \<le> length (buffer ?A) \<and> header_magic (buffer ?A) = relogic \<and> header_type (buffer ?A) \<noteq> 2"
    by (simp add: header_eval)
  have b1: "12 \<le> length (buffer ?B) \<and> header_magic (buffer ?B) = relogic \<and> header_type (buffer ?B) = 2 \<and>
      header_version (buffer ?B) < 194"
    by (simp add: header_eval)
  have b2: "preamble (set_offset (At 0) ?B) = Some (Inr (100, relogic, 2, [0], [], 1, 1), ?B\<lparr>offset := At 82\<rparr>)"
    by (simp add: validator_eval cursor_eval)
  then have b3: "\<exists>r p1. preamble (set_offset (At 0) ?B) = Some (Inr r, p1)" by blast
  have c: "\<not> ignoreBounds ?C \<and> buffer ?C = take 50 tiny_file \<and>
      preamble (set_offset (At 0) (?C\<lparr>buffer := tiny_file\<rparr>)) =
        Some (Inr (279, relogic, 2, [0], [], 1, 1), (new_parser tiny_file)\<lparr>offset := At 82\<rparr>) \<and>
      offset ((new_parser tiny_file)\<lparr>offset := At 82\<rparr>) = At 82 \<and> int 50 < 82"
    by (simp add: validator_eval cursor_eval)
  from format_rejection [of ?A] a
  have ra: "\<exists>p'. parseNecessaryData ?A = Some (Inl InvalidFileType, p')" by blast
  from format_rejection [of ?B] b1 b3
  have rb: "\<exists>p'. parseNecessaryData ?B = Some (Inl VersionTooOld, p')" by blast
  from format_rejection [of ?C] c
  have rc: "\<exists>p'. parseNecessaryData ?C = Some (Inl InvalidFileType, p')" by blast
  from a b1 b3 c ra rb rc show ?thesis by blast
qed

section \<open>The header decoder\<close>

subsection \<open>The properties a header has\<close>

lemma lift_ret_Some [simp]: "lift (ret a) p = Some (Inr b, p') \<longleftrightarrow> a = b \<and> p = p'"
  by (auto simp: lift_def ret_def)

text \<open>
  A run of statements that returns has assigned the names of the statements, in addition
  to those the object had, and has left every other property as it was.
\<close>

lemma exec_names:
  "(\<forall>p data' p'. exec s data p = Some (Inr data', p') \<longrightarrow>
      dom data' = dom data \<union> set (names s) \<and> (\<forall>k. k \<notin> set (names s) \<longrightarrow> data' k = data k))"
  "(\<forall>p data' p'. exec_all ss data p = Some (Inr data', p') \<longrightarrow>
      dom data' = dom data \<union> set (names_all ss) \<and> (\<forall>k. k \<notin> set (names_all ss) \<longrightarrow> data' k = data k))"
proof (induction s data and ss data rule: exec_exec_all.induct)
  case (1 name rd data)
  then show ?case by (auto simp: thenDoP_Inr)
next
  case (2 name f data)
  then show ?case by auto
next
  case (3 c ss1 ss2 data)
  then show ?case by (cases c) simp_all
next
  case (4 data)
  then show ?case by simp
next
  case (5 s ss data)
  show ?case
  proof (intro allI impI)
    fix p data' p'
    assume "exec_all (s # ss) data p = Some (Inr data', p')"
    then obtain d1 p1 where
      a: "exec s data p = Some (Inr d1, p1)" and b: "exec_all ss d1 p1 = Some (Inr data', p')"
      by (auto simp: thenDoP_Inr)
    from "5.IH"(1) a have a': "dom d1 = dom data \<union> set (names s)" "\<forall>k. k \<notin> set (names s) \<longrightarrow> d1 k = data k"
      by blast+
    from "5.IH"(2) [of d1] b
    have b': "dom data' = dom d1 \<union> set (names_all ss)" "\<forall>k. k \<notin> set (names_all ss) \<longrightarrow> data' k = d1 k"
      by blast+
    from a' b' show "dom data' = dom data \<union> set (names_all (s # ss)) \<and>
        (\<forall>k. k \<notin> set (names_all (s # ss)) \<longrightarrow> data' k = data k)"
      by auto
  qed
qed

lemma exec_all_append:
  "exec_all (a @ b) data = thenDoP (exec_all a data) (exec_all b)"
proof (induction a arbitrary: data)
  case Nil
  show ?case by (rule ext) (simp add: thenDoP_def lift_def ret_def)
next
  case (Cons s a)
  show ?case
    by (rule ext) (simp add: Cons thenDoP_def split: option.splits prod.splits sum.splits)
qed

lemma parseHeader_present:
  assumes "parseHeader world p = Some (Inr h, p')"
  shows "h k \<noteq> None \<longleftrightarrow> k \<in> set (names_all (header_fields world))"
proof -
  from exec_names(2) [rule_format, OF assms [unfolded parseHeader_def]]
  have "dom h = set (names_all (header_fields world))"
    by simp
  then show ?thesis by (auto simp: dom_def)
qed

text \<open>Every name of the table is assigned exactly from its threshold on.\<close>

lemma header_names_gated:
  "list_all (\<lambda>(name, g). (name \<in> set (names_all (header_fields world))) = (g \<le> version world)) header_gates"
  by (simp add: header_fields_def header_gates_def)

text \<open>
  \<^verbatim>\<open>data.afterPartyOfDoom = this.world.version >= 257 ? this.readBoolean() : false;\<close> is the
  58th statement, and no later statement assigns the property again.
\<close>

lemma afterPartyOfDoom_split:
  "\<exists>pre post. header_fields world =
      pre @ Assign ''afterPartyOfDoom'' (if 257 \<le> version world then rBoolean else rConst (HBool False)) # post \<and>
      ''afterPartyOfDoom'' \<notin> set (names_all post)"
  by (rule exI [of _ "take 57 (header_fields world)"], rule exI [of _ "drop 58 (header_fields world)"])
    (simp add: header_fields_def)

lemma afterPartyOfDoom_value:
  assumes "parseHeader world p = Some (Inr h, p')"
  shows "h ''afterPartyOfDoom'' \<noteq> None \<and>
         (version world < 257 \<longrightarrow> h ''afterPartyOfDoom'' = Some (HBool False))"
proof -
  let ?rd = "if 257 \<le> version world then rBoolean else rConst (HBool False)"
  from afterPartyOfDoom_split obtain pre post where
    split: "header_fields world = pre @ Assign ''afterPartyOfDoom'' ?rd # post" and
    post: "''afterPartyOfDoom'' \<notin> set (names_all post)"
    by blast
  from assms obtain d1 p1 d2 p2 where
    "exec_all pre Map.empty p = Some (Inr d1, p1)" and
    a: "exec (Assign ''afterPartyOfDoom'' ?rd) d1 p1 = Some (Inr d2, p2)" and
    b: "exec_all post d2 p2 = Some (Inr h, p')"
    by (auto simp: parseHeader_def split exec_all_append thenDoP_Inr)
  from exec_names(2) [rule_format, OF b] post have same: "h ''afterPartyOfDoom'' = d2 ''afterPartyOfDoom''"
    by simp
  from a obtain v where v: "?rd p1 = Some (Inr v, p2)" "d2 ''afterPartyOfDoom'' = Some v"
    by (auto simp: thenDoP_Inr)
  have "v = HBool False" if "version world < 257"
    using v(1) that by (simp add: rConst_def)
  with same v(2) show ?thesis by simp
qed

subsection \<open>A header of zero bytes\<close>

text \<open>
  On the section of zero bytes every read inside the section returns zero and moves the
  cursor on; a string there is empty after its length byte.
\<close>

lemma le_uint_zeros: "le_uint (replicate w 0) = 0"
  by (induction w) (simp_all add: le_uint_def)

lemma le_sint_zeros: "le_sint (replicate w 0) = 0"
  by (simp add: le_sint_def le_uint_zeros Let_def)

lemma typed_read_zero_header:
  assumes "0 \<le> k" "k + int w \<le> 415"
  shows "typed_read w dec (zero_header k) = (Inr (dec (replicate w 0)), zero_header (k + int w))"
proof -
  from assms have "w \<le> 415 - nat k" by linarith
  then have "take w (drop (nat k) (replicate 415 (0::byte))) = replicate w 0"
    by (simp add: min_absorb1)
  with assms show ?thesis
    by (simp add: typed_read_At [of _ k] zero_header_def new_parser_def set_offset_def)
qed

lemma reads_zero_header:
  "0 \<le> k \<Longrightarrow> k + 1 \<le> 415 \<Longrightarrow> readUInt8 (zero_header k) = (Inr 0, zero_header (k + 1))"
  "0 \<le> k \<Longrightarrow> k + 2 \<le> 415 \<Longrightarrow> readInt16 (zero_header k) = (Inr 0, zero_header (k + 2))"
  "0 \<le> k \<Longrightarrow> k + 4 \<le> 415 \<Longrightarrow> readInt32 (zero_header k) = (Inr 0, zero_header (k + 4))"
  "0 \<le> k \<Longrightarrow> k + 4 \<le> 415 \<Longrightarrow> readFloat32 (zero_header k) = (Inr 0, zero_header (k + 4))"
  "0 \<le> k \<Longrightarrow> k + 8 \<le> 415 \<Longrightarrow> readFloat64 (zero_header k) = (Inr 0, zero_header (k + 8))"
  "0 \<le> k \<Longrightarrow> k + 1 \<le> 415 \<Longrightarrow> readBoolean (zero_header k) = (Inr False, zero_header (k + 1))"
  using typed_read_zero_header [of k 1 le_uint] typed_read_zero_header [of k 2 le_sint]
    typed_read_zero_header [of k 4 le_sint] typed_read_zero_header [of k 4 le_uint]
    typed_read_zero_header [of k 8 le_uint]
  by (simp_all add: readUInt8_def readInt16_def readInt32_def readFloat32_def readFloat64_def
      readBoolean_def thenDo_def ret_def le_uint_zeros le_sint_zeros le_uint_zeros [of 1, simplified])

lemma readBytes_loop_zero_header:
  assumes "0 \<le> k" "i \<le> n" "k + (n - i) \<le> 415"
  shows "readBytes_loop i n acc (zero_header k) =
           (Inr (acc @ replicate (nat (n - i)) 0), zero_header (k + (n - i)))"
  using assms
proof (induction "nat (n - i)" arbitrary: i acc k)
  case 0
  then have "i = n" by simp
  then show ?case by (simp add: readBytes_loop.simps [of n n])
next
  case (Suc d)
  then have lt: "i < n" and d: "d = nat (n - (i + 1))" by simp_all
  from Suc.prems lt have rd: "readUInt8 (zero_header k) = (Inr 0, zero_header (k + 1))"
    by (simp add: reads_zero_header)
  from Suc.prems lt have "readBytes_loop (i + 1) n (acc @ [0]) (zero_header (k + 1)) =
      (Inr ((acc @ [0]) @ replicate (nat (n - (i + 1))) 0), zero_header (k + 1 + (n - (i + 1))))"
    by (intro Suc.hyps(1) d) simp_all
  moreover have "[0::int] @ replicate (nat (n - (i + 1))) 0 = replicate (nat (n - i)) 0"
    using lt by (simp add: replicate_Suc [symmetric] Suc_nat_eq_nat_zadd1 del: replicate_Suc)
  ultimately show ?case
    using lt rd by (simp add: readBytes_loop.simps [of i n acc] algebra_simps)
qed

lemma readBytes_zero_header:
  "0 \<le> k \<Longrightarrow> 0 \<le> n \<Longrightarrow> k + n \<le> 415 \<Longrightarrow>
     readBytes n (zero_header k) = (Inr (replicate (nat n) 0), zero_header (k + n))"
  using readBytes_loop_zero_header [of k 0 n "[]"] by (simp add: readBytes_def)

lemma readString_zero_header:
  "0 \<le> k \<Longrightarrow> k + 1 \<le> 415 \<Longrightarrow> readString (zero_header k) = Some (Inr [], zero_header (k + 1))"
  by (simp add: readString_def thenDoP_def lift_def readString_length.simps [of 0 0 "zero_header k"]
      reads_zero_header readBytes_def readBytes_loop.simps [of 0 0])

lemmas zero_header_eval =
  rInt32_def rInt16_def rUInt8_def rBoolean_def rFloat32_def rFloat64_def rBytes_def rString_def
  rConst_def rArray_def rCounted_def rCountedStrings_def
  thenDo_def thenDoP_def lift_def ret_def reads_zero_header readBytes_zero_header
  readString_zero_header repeat_read.simps [of 0] repeat_readP.simps [of 0]

text \<open>
  The statements are run sixteen at a time, for any object they start from: the first
  \<open>m\<close>, then the next \<open>n\<close>.
\<close>

lemma exec_all_chunk:
  assumes "\<forall>data. \<exists>h. exec_all (take m ss) data p = Some (Inr h, p1)"
    and "\<forall>data. \<exists>h. exec_all (take n (drop m ss)) data p1 = Some (Inr h, p2)"
    and k: "k = m + n"
  shows "\<forall>data. \<exists>h. exec_all (take k ss) data p = Some (Inr h, p2)"
  unfolding k
proof
  fix data
  from assms(1) obtain d1 where a: "exec_all (take m ss) data p = Some (Inr d1, p1)" by blast
  from assms(2) obtain h where b: "exec_all (take n (drop m ss)) d1 p1 = Some (Inr h, p2)" by blast
  have "exec_all (take (m + n) ss) data p = Some (Inr h, p2)"
    by (simp add: take_add exec_all_append thenDoP_def a b)
  then show "\<exists>h. exec_all (take (m + n) ss) data p = Some (Inr h, p2)" by blast
qed

lemma exec_all_chunks:
  assumes "length ss = 124"
    and 1: "\<forall>data. \<exists>h. exec_all (take 16 ss) data (zero_header 0) = Some (Inr h, zero_header k1)"
    and 2: "\<forall>data. \<exists>h. exec_all (take 16 (drop 16 ss)) data (zero_header k1) = Some (Inr h, zero_header k2)"
    and 3: "\<forall>data. \<exists>h. exec_all (take 16 (drop 32 ss)) data (zero_header k2) = Some (Inr h, zero_header k3)"
    and 4: "\<forall>data. \<exists>h. exec_all (take 16 (drop 48 ss)) data (zero_header k3) = Some (Inr h, zero_header k4)"
    and 5: "\<forall>data. \<exists>h. exec_all (take 16 (drop 64 ss)) data (zero_header k4) = Some (Inr h, zero_header k5)"
    and 6: "\<forall>data. \<exists>h. exec_all (take 16 (drop 80 ss)) data (zero_header k5) = Some (Inr h, zero_header k6)"
    and 7: "\<forall>data. \<exists>h. exec_all (take 16 (drop 96 ss)) data (zero_header k6) = Some (Inr h, zero_header k7)"
    and 8: "\<forall>data. \<exists>h. exec_all (take 12 (drop 112 ss)) data (zero_header k7) = Some (Inr h, zero_header k8)"
  shows "\<exists>h. exec_all ss Map.empty (zero_header 0) = Some (Inr h, zero_header k8)"
proof -
  note exec_all_chunk [of _ ss, OF 1 2, of 32, simplified]
  note exec_all_chunk [of _ ss, OF this 3, of 48, simplified]
  note exec_all_chunk [of _ ss, OF this 4, of 64, simplified]
  note exec_all_chunk [of _ ss, OF this 5, of 80, simplified]
  note exec_all_chunk [of _ ss, OF this 6, of 96, simplified]
  note exec_all_chunk [of _ ss, OF this 7, of 112, simplified]
  note exec_all_chunk [of _ ss, OF this 8, of 124, simplified]
  with assms(1) show ?thesis by simp
qed

lemma zero_header_v194:
  "\<exists>h. parseHeader world_v194 (zero_header 0) = Some (Inr h, zero_header 341)"
  unfolding parseHeader_def
  by (rule exec_all_chunks [where ?k1.0 = 76 and ?k2.0 = 175 and ?k3.0 = 194 and ?k4.0 = 235
        and ?k5.0 = 270 and ?k6.0 = 301 and ?k7.0 = 320])
    (simp_all add: header_fields_def world_v194_def zero_header_eval)

lemma zero_header_v279:
  "\<exists>h. parseHeader world_v279 (zero_header 0) = Some (Inr h, zero_header 415)"
  unfolding parseHeader_def
  by (rule exec_all_chunks [where ?k1.0 = 87 and ?k2.0 = 186 and ?k3.0 = 205 and ?k4.0 = 247
        and ?k5.0 = 282 and ?k6.0 = 314 and ?k7.0 = 333])
    (simp_all add: header_fields_def world_v279_def zero_header_eval)

subsection \<open>Version gates\<close>

text \<open>
  C4 (as stated). A header decoded below the threshold of a gate has no value, and no
  default, for the gated properties. It does not hold of \<^verbatim>\<open>afterPartyOfDoom\<close>: at version
  194, below its threshold 257, the header decoded from the zero bytes has the property,
  with the value \<^verbatim>\<open>false\<close> of the conditional expression.
\<close>

theorem header_default_counterexample:
  "version world_v194 < 257 \<and>
   (\<exists>h. parseHeader world_v194 (zero_header 0) = Some (Inr h, zero_header 341) \<and>
        h ''afterPartyOfDoom'' = Some (HBool False))"
proof -
  from zero_header_v194 obtain h where
    h: "parseHeader world_v194 (zero_header 0) = Some (Inr h, zero_header 341)"
    by blast
  have v: "version world_v194 < 257" by (simp add: world_v194_def)
  with afterPartyOfDoom_value [OF h] have "h ''afterPartyOfDoom'' = Some (HBool False)" by simp
  with h v show ?thesis by blast
qed

text \<open>
  C4 (as amended). Two decodes of the same header bytes, from the same parser state, that
  differ only in the version of the world and both return: for every gate of the form
  \<^verbatim>\<open>if (this.world.version >= g)\<close> with the first version below \<open>g\<close> and the second at or
  above it, the gated property is absent from the first header and present in the second.
  The one exception is \<^verbatim>\<open>afterPartyOfDoom\<close>, which every header has, with the default
  \<^verbatim>\<open>false\<close> below version 257.
\<close>

theorem header_version_gating:
  assumes a: "parseHeader worldA p = Some (Inr headerA, pA)"
    and b: "parseHeader worldB p = Some (Inr headerB, pB)"
  shows "list_all (\<lambda>(name, g). version worldA < g \<and> g \<le> version worldB \<longrightarrow>
            headerA name = None \<and> headerB name \<noteq> None) header_gates \<and>
         headerA ''afterPartyOfDoom'' \<noteq> None \<and>
         (version worldA < 257 \<longrightarrow> headerA ''afterPartyOfDoom'' = Some (HBool False))"
proof -
  have "list_all (\<lambda>(name, g). version worldA < g \<and> g \<le> version worldB \<longrightarrow>
            headerA name = None \<and> headerB name \<noteq> None) header_gates"
    unfolding list_all_iff
  proof (rule ballI, clarify)
    fix name g
    assume mem: "(name, g) \<in> set header_gates"
      and lo: "version worldA < g" and hi: "g \<le> version worldB"
    from header_names_gated [of worldA] mem
    have ga: "(name \<in> set (names_all (header_fields worldA))) = (g \<le> version worldA)"
      unfolding list_all_iff by blast
    from header_names_gated [of worldB] mem
    have gb: "(name \<in> set (names_all (header_fields worldB))) = (g \<le> version worldB)"
      unfolding list_all_iff by blast
    from ga lo have "name \<notin> set (names_all (header_fields worldA))" by simp
    with parseHeader_present [OF a, of name] have na: "headerA name = None" by blast
    from gb hi have "name \<in> set (names_all (header_fields worldB))" by simp
    with parseHeader_present [OF b, of name] have "headerB name \<noteq> None" by blast
    with na show "headerA name = None \<and> headerB name \<noteq> None" by simp
  qed
  with afterPartyOfDoom_value [OF a] show ?thesis by simp
qed

theorem header_version_gating_witness:
  "\<exists>hA hB. parseHeader world_v194 (zero_header 0) = Some (Inr hA, zero_header 341) \<and>
     parseHeader world_v279 (zero_header 0) = Some (Inr hB, zero_header 415) \<and>
     list_all (\<lambda>(name, g). hA name = None \<and> hB name \<noteq> None) header_gates \<and>
     hA ''afterPartyOfDoom'' = Some (HBool False)"
proof -
  from zero_header_v194 obtain hA where
    a: "parseHeader world_v194 (zero_header 0) = Some (Inr hA, zero_header 341)"
    by blast
  from zero_header_v279 obtain hB where
    b: "parseHeader world_v279 (zero_header 0) = Some (Inr hB, zero_header 415)"
    by blast
  have between: "list_all (\<lambda>(name, g). version world_v194 < g \<and> g \<le> version world_v279) header_gates"
    by (simp add: header_gates_def world_v194_def world_v279_def)
  have v: "version world_v194 < 257" by (simp add: world_v194_def)
  from header_version_gating [OF a b] between v
  have "list_all (\<lambda>(name, g). hA name = None \<and> hB name \<noteq> None) header_gates"
    and "hA ''afterPartyOfDoom'' = Some (HBool False)"
    by (auto simp: list_all_iff)
  with a b show ?thesis by blast
qed

section \<open>The progress callback\<close>

subsection \<open>Reads without the accessor\<close>

lemma core_fields [simp]:
  "offset (core p) = offset p" "buffer (core p) = buffer p" "ignoreBounds (core p) = ignoreBounds p"
  "RLE (core p) = RLE p" "progress (core p) = None" "reported (core p) = []"
  by (simp_all add: core_def)

lemma core_set_offset [simp]: "set_offset v (core p) = core (set_offset v p)"
  by (simp add: set_offset_def core_def split: option.splits)

lemma core_RLE_update [simp]: "(core p)\<lparr>RLE := v\<rparr> = core (p\<lparr>RLE := v\<rparr>)"
  by (simp add: core_def)

lemma core_core [simp]: "core (core p) = core p"
  by (simp add: core_def)

lemma quietD: "quiet m \<Longrightarrow> m (core p) = (fst (m p), core (snd (m p)))"
  by (simp add: quiet_def)

lemma quietD': "quiet m \<Longrightarrow> m p = (r, q) \<Longrightarrow> m (core p) = (r, core q)"
  by (simp add: quiet_def)

lemma quietPD: "quietP m \<Longrightarrow> m (core p) = map_option (\<lambda>(r, q). (r, core q)) (m p)"
  by (simp add: quietP_def)

lemma quiet_typed_read [simp]: "quiet (typed_read w dec)"
  by (simp add: quiet_def typed_read_def Let_def split: option.splits)

lemma quiet_reads [simp]:
  "quiet readUInt8" "quiet readInt16" "quiet readUInt16" "quiet readInt32" "quiet readUInt32"
  "quiet readFloat32" "quiet readFloat64"
  by (simp_all add: readUInt8_def readInt16_def readUInt16_def readInt32_def readUInt32_def
      readFloat32_def readFloat64_def)

lemma quiet_ret [simp]: "quiet (ret a)"
  by (simp add: quiet_def ret_def)

lemma quiet_throw [simp]: "quiet (throw e)"
  by (simp add: quiet_def throw_def)

lemma quiet_skipBytes [simp]: "quiet (skipBytes k)"
  by (simp add: quiet_def skipBytes_def)

lemma quiet_jumpTo [simp]: "quiet (jumpTo v)"
  by (simp add: quiet_def jumpTo_def)

lemma quiet_set_RLE [simp]: "quiet (set_RLE v)"
  by (simp add: quiet_def set_RLE_def)

lemma quiet_thenDo:
  assumes "quiet m" and "\<And>a. quiet (f a)"
  shows "quiet (thenDo m f)"
  unfolding quiet_def
proof
  fix p
  obtain r q where mp: "m p = (r, q)" by (cases "m p")
  from quietD' [OF assms(1) mp] have mc: "m (core p) = (r, core q)" .
  show "thenDo m f (core p) = (fst (thenDo m f p), core (snd (thenDo m f p)))"
  proof (cases r)
    case (Inl e)
    with mp mc show ?thesis by (simp add: thenDo_def)
  next
    case (Inr a)
    with mp mc quietD [OF assms(2), of a q] show ?thesis by (simp add: thenDo_def)
  qed
qed

lemma quiet_if: "quiet a \<Longrightarrow> quiet b \<Longrightarrow> quiet (if c then a else b)"
  by simp

lemma quiet_readBoolean [simp]: "quiet readBoolean"
  unfolding readBoolean_def by (intro quiet_thenDo quiet_reads quiet_ret)

lemma quiet_readBytes_loop: "quiet (readBytes_loop i k acc)"
  unfolding quiet_def
proof
  fix p
  show "readBytes_loop i k acc (core p) =
      (fst (readBytes_loop i k acc p), core (snd (readBytes_loop i k acc p)))"
  proof (induction i k acc p rule: readBytes_loop.induct)
    case (1 i n acc p)
    obtain r q where rd: "readUInt8 p = (r, q)" by (cases "readUInt8 p")
    note rc = quietD' [OF quiet_reads(1) rd]
    show ?case
    proof (cases "i < n")
      case False
      then show ?thesis
        by (simp add: readBytes_loop.simps [of i n acc])
    next
      case True
      show ?thesis
      proof (cases r)
        case (Inl e)
        with True rd rc show ?thesis by (simp add: readBytes_loop.simps [of i n acc])
      next
        case (Inr b)
        with True rd rc "1.IH" [OF True rd [symmetric], of b] show ?thesis
          by (simp add: readBytes_loop.simps [of i n acc])
      qed
    qed
  qed
qed

lemma quiet_readBytes [simp]: "quiet (readBytes k)"
  by (simp add: readBytes_def quiet_readBytes_loop)

lemma quiet_repeat_read:
  assumes "quiet m"
  shows "quiet (repeat_read i m acc)"
  unfolding quiet_def
proof
  fix p
  show "repeat_read i m acc (core p) =
      (fst (repeat_read i m acc p), core (snd (repeat_read i m acc p)))"
    using assms
  proof (induction i m acc p rule: repeat_read.induct)
    case (1 i m acc p)
    obtain r q where rd: "m p = (r, q)" by (cases "m p")
    note rc = quietD' [OF "1.prems" rd]
    show ?case
    proof (cases "i > 0")
      case False
      then show ?thesis
        by (simp add: repeat_read.simps [of i m acc])
    next
      case True
      show ?thesis
      proof (cases r)
        case (Inl e)
        with True rd rc show ?thesis by (simp add: repeat_read.simps [of i m acc])
      next
        case (Inr b)
        with True rd rc "1.IH" [OF True rd [symmetric], of b] "1.prems" show ?thesis
          by (simp add: repeat_read.simps [of i m acc])
      qed
    qed
  qed
qed

lemma quiet_parseBitsByte_bytes: "quiet (parseBitsByte_bytes i acc)"
  unfolding quiet_def
proof
  fix p
  show "parseBitsByte_bytes i acc (core p) =
      (fst (parseBitsByte_bytes i acc p), core (snd (parseBitsByte_bytes i acc p)))"
  proof (induction i acc p rule: parseBitsByte_bytes.induct)
    case (1 i acc p)
    obtain r q where rd: "readUInt8 p = (r, q)" by (cases "readUInt8 p")
    note rc = quietD' [OF quiet_reads(1) rd]
    show ?case
    proof (cases "i > 0")
      case False
      then show ?thesis
        by (simp add: parseBitsByte_bytes.simps [of i acc])
    next
      case True
      show ?thesis
      proof (cases r)
        case (Inl e)
        with True rd rc show ?thesis by (simp add: parseBitsByte_bytes.simps [of i acc])
      next
        case (Inr b)
        with True rd rc "1.IH" [OF True rd [symmetric], of b] show ?thesis
          by (simp add: parseBitsByte_bytes.simps [of i acc])
      qed
    qed
  qed
qed

lemma quiet_parseBitsByte [simp]: "quiet (parseBitsByte sz)"
  unfolding parseBitsByte_def by (intro quiet_thenDo quiet_parseBitsByte_bytes quiet_ret)

subsection \<open>The tile decoder without the accessor\<close>

lemma quiet_tileFlags [simp]: "quiet tileFlags"
  unfolding tileFlags_def by (intro quiet_thenDo quiet_if quiet_reads quiet_ret)

lemma quiet_tileBlock [simp]: "quiet (tileBlock world flags1 flags3 tile)"
  unfolding tileBlock_def by (intro quiet_thenDo quiet_if quiet_reads quiet_ret)

lemma quiet_tileWall [simp]: "quiet (tileWall flags1 flags3 tile)"
  unfolding tileWall_def by (intro quiet_thenDo quiet_if quiet_reads quiet_ret)

lemma quiet_tileLiquid [simp]: "quiet (tileLiquid flags1 flags3 tile)"
  unfolding tileLiquid_def Let_def by (intro quiet_thenDo quiet_if quiet_reads quiet_ret)

lemma quiet_tileLayers [simp]: "quiet (tileLayers world flags1 flags3 tile)"
  unfolding tileLayers_def
  by (intro quiet_thenDo quiet_if quiet_tileBlock quiet_tileWall quiet_tileLiquid quiet_ret)

lemma quiet_tileWallHigh [simp]: "quiet (tileWallHigh flags3 tile)"
  unfolding tileWallHigh_def by (intro quiet_thenDo quiet_if quiet_reads quiet_ret)

lemma quiet_tileExtras [simp]: "quiet (tileExtras flags2 flags3 flags4 tile)"
  unfolding tileExtras_def
  by (auto split: option.splits intro!: quiet_thenDo quiet_tileWallHigh quiet_ret)

lemma quiet_tileRLE [simp]: "quiet (tileRLE flags1)"
  unfolding tileRLE_def Let_def
  by (intro quiet_thenDo quiet_if quiet_reads quiet_ret quiet_set_RLE)

lemma quiet_parseTileData [simp]: "quiet (parseTileData world)"
  unfolding parseTileData_def
  by (intro quiet_thenDo quiet_tileFlags) (auto intro!: quiet_thenDo)

lemma copy_run_core:
  "copy_run y col (core p) =
     (fst (copy_run y col p), fst (snd (copy_run y col p)), core (snd (snd (copy_run y col p))))"
proof (induction y col p rule: copy_run.induct)
  case (1 y col p)
  show ?case
  proof (cases "RLE p > 0")
    case True
    with "1.IH" show ?thesis
      by (simp add: copy_run.simps [of y col p] copy_run.simps [of y col "core p"])
  next
    case False
    then show ?thesis
      by (simp add: copy_run.simps [of y col p] copy_run.simps [of y col "core p"])
  qed
qed

lemma quiet_fill_column: "quiet (fill_column world y col)"
  unfolding quiet_def
proof
  fix p
  show "fill_column world y col (core p) =
      (fst (fill_column world y col p), core (snd (fill_column world y col p)))"
  proof (induction world y col p rule: fill_column.induct)
    case (1 world y col p)
    obtain r q where rd: "parseTileData world p = (r, q)" by (cases "parseTileData world p")
    note rc = quietD' [OF quiet_parseTileData rd]
    show ?case
    proof (cases "int y < height world")
      case False
      then show ?thesis
        by (simp add: fill_column.simps [of world y col])
    next
      case True
      show ?thesis
      proof (cases r)
        case (Inl e)
        with True rd rc show ?thesis by (simp add: fill_column.simps [of world y col])
      next
        case (Inr tile)
        obtain y2 col2 p2 where cr: "copy_run y (js_set col y (Some tile)) q = (y2, col2, p2)"
          by (cases "copy_run y (js_set col y (Some tile)) q")
        with copy_run_core [of y "js_set col y (Some tile)" q]
        have cc: "copy_run y (js_set col y (Some tile)) (core q) = (y2, col2, core p2)" by simp
        from "1.IH" [OF True rd [symmetric, unfolded Inr] refl cr [symmetric] refl]
        have "fill_column world (y2 + 1) col2 (core p2) =
            (fst (fill_column world (y2 + 1) col2 p2), core (snd (fill_column world (y2 + 1) col2 p2)))" .
        with True rd rc Inr cr cc show ?thesis
          by (simp add: fill_column.simps [of world y col])
      qed
    qed
  qed
qed

lemma quiet_fill_columns: "quiet (fill_columns world x data)"
  unfolding quiet_def
proof
  fix p
  show "fill_columns world x data (core p) =
      (fst (fill_columns world x data p), core (snd (fill_columns world x data p)))"
  proof (induction world x data p rule: fill_columns.induct)
    case (1 world x data p)
    let ?col = "replicate (nat (height world)) None"
    obtain r q where rd: "fill_column world 0 ?col p = (r, q)" by (cases "fill_column world 0 ?col p")
    note rc = quietD' [OF quiet_fill_column rd]
    show ?case
    proof (cases "int x < width world \<and> array_length_ok (height world)")
      case False
      then show ?thesis
        by (auto simp: fill_columns.simps [of world x data])
    next
      case True
      show ?thesis
      proof (cases r)
        case (Inl e)
        with True rd rc show ?thesis by (simp add: fill_columns.simps [of world x data])
      next
        case (Inr c)
        with True rd rc "1.IH" [of "Inr c" q c] show ?thesis
          by (simp add: fill_columns.simps [of world x data])
      qed
    qed
  qed
qed

lemma quiet_parseWorldTiles [simp]: "quiet (parseWorldTiles world)"
  unfolding quiet_def parseWorldTiles_def
  using quietD [OF quiet_fill_columns, of world 0 "[]"]
  by simp

subsection \<open>Methods that may not return\<close>

lemma quietPD': "quietP m \<Longrightarrow> m p = Some (r, q) \<Longrightarrow> m (core p) = Some (r, core q)"
  by (simp add: quietP_def)

lemma quietPD_None: "quietP m \<Longrightarrow> m p = None \<Longrightarrow> m (core p) = None"
  by (simp add: quietP_def)

lemma quietP_lift: "quiet m \<Longrightarrow> quietP (lift m)"
  by (simp add: quietP_def lift_def quiet_def split_beta)

lemma quietP_thenDoP:
  assumes "quietP m" and "\<And>a. quietP (f a)"
  shows "quietP (thenDoP m f)"
  unfolding quietP_def
proof
  fix p
  show "thenDoP m f (core p) = map_option (\<lambda>(r, q). (r, core q)) (thenDoP m f p)"
  proof (cases "m p")
    case None
    with quietPD_None [OF assms(1) None] show ?thesis by (simp add: thenDoP_def)
  next
    case (Some y)
    obtain r q where y: "y = (r, q)" by (cases y)
    note mc = quietPD' [OF assms(1) Some [unfolded y]]
    show ?thesis
    proof (cases r)
      case (Inl e)
      with Some y mc show ?thesis by (simp add: thenDoP_def)
    next
      case (Inr a)
      with Some y mc quietPD [OF assms(2), of a q] show ?thesis by (simp add: thenDoP_def)
    qed
  qed
qed

lemma quietP_if: "quietP a \<Longrightarrow> quietP b \<Longrightarrow> quietP (if c then a else b)"
  by simp

text \<open>
  The length loop of a string, in both directions: a run that returns with the accessor
  returns the same without it, and a run that returns without it returns with it.
\<close>

lemma readString_length_core:
  assumes "readString_length len shift p = Some (r, q)"
  shows "readString_length len shift (core p) = Some (r, core q)"
proof -
  have "readString_length len shift (core p) = Some (fst y, core (snd y))"
    if "readString_length len shift p = Some y" for y
    using that
  proof (rule readString_length.raw_induct
      [where P = "\<lambda>len shift p y. readString_length len shift (core p) = Some (fst y, core (snd y))", rotated])
    fix rsl :: "32 word \<Rightarrow> int \<Rightarrow> parser \<Rightarrow> ((error + int) \<times> parser) option"
    fix len shift p y
    assume IH: "\<And>len shift p y. rsl len shift p = Some y \<Longrightarrow>
        readString_length len shift (core p) = Some (fst y, core (snd y))"
    assume body: "(case readUInt8 p of
          (Inl e, p1) \<Rightarrow> Some (Inl e, p1)
        | (Inr b, p1) \<Rightarrow>
            if b AND 128 \<noteq> 0
            then rsl (len OR push_bit (nat (shift mod 32)) (word_of_int (b AND 127))) (shift + 7) p1
            else Some (Inr (sint (len OR push_bit (nat (shift mod 32)) (word_of_int (b AND 127)))), p1)) =
        Some y"
    obtain r1 p1 where rd: "readUInt8 p = (r1, p1)" by (cases "readUInt8 p")
    note rc = quietD' [OF quiet_reads(1) rd]
    show "readString_length len shift (core p) = Some (fst y, core (snd y))"
    proof (cases r1)
      case (Inl e)
      with body rd rc show ?thesis
        by (subst readString_length.simps) auto
    next
      case (Inr b)
      let ?len = "len OR push_bit (nat (shift mod 32)) (word_of_int (b AND 127))"
      show ?thesis
      proof (cases "b AND 128 = 0")
        case True
        with body rd rc Inr show ?thesis
          by (subst readString_length.simps) auto
      next
        case False
        with body rd Inr have "rsl ?len (shift + 7) p1 = Some y" by simp
        from IH [OF this] False rc Inr show ?thesis
          by (subst readString_length.simps) simp
      qed
    qed
  qed
  from this [OF assms] show ?thesis by simp
qed

lemma readString_length_uncore:
  assumes "readString_length len shift (core p) = Some y"
  shows "readString_length len shift p \<noteq> None"
proof -
  have "\<forall>p. p' = core p \<longrightarrow> readString_length len shift p \<noteq> None"
    if "readString_length len shift p' = Some y" for p' y
    using that
  proof (rule readString_length.raw_induct
      [where P = "\<lambda>len shift p' y. \<forall>p. p' = core p \<longrightarrow> readString_length len shift p \<noteq> None", rotated])
    fix rsl :: "32 word \<Rightarrow> int \<Rightarrow> parser \<Rightarrow> ((error + int) \<times> parser) option"
    fix len shift p' y
    assume IH: "\<And>len shift p' y. rsl len shift p' = Some y \<Longrightarrow>
        \<forall>p. p' = core p \<longrightarrow> readString_length len shift p \<noteq> None"
    assume body: "(case readUInt8 p' of
          (Inl e, p1) \<Rightarrow> Some (Inl e, p1)
        | (Inr b, p1) \<Rightarrow>
            if b AND 128 \<noteq> 0
            then rsl (len OR push_bit (nat (shift mod 32)) (word_of_int (b AND 127))) (shift + 7) p1
            else Some (Inr (sint (len OR push_bit (nat (shift mod 32)) (word_of_int (b AND 127)))), p1)) =
        Some y"
    show "\<forall>p. p' = core p \<longrightarrow> readString_length len shift p \<noteq> None"
    proof (intro allI impI)
      fix p assume p': "p' = core p"
      obtain r1 p1 where rd: "readUInt8 p = (r1, p1)" by (cases "readUInt8 p")
      note rc = quietD' [OF quiet_reads(1) rd]
      show "readString_length len shift p \<noteq> None"
      proof (cases r1)
        case (Inl e)
        with rd show ?thesis
          by (subst readString_length.simps) simp
      next
        case (Inr b)
        let ?len = "len OR push_bit (nat (shift mod 32)) (word_of_int (b AND 127))"
        show ?thesis
        proof (cases "b AND 128 = 0")
          case True
          with rd Inr show ?thesis
            by (subst readString_length.simps) simp
        next
          case False
          with body rc Inr p' have "rsl ?len (shift + 7) (core p1) = Some y" by simp
          from IH [OF this, rule_format, OF refl] False rd Inr show ?thesis
            by (subst readString_length.simps) simp
        qed
      qed
    qed
  qed
  from this [OF assms] show ?thesis by simp
qed

lemma quietP_readString_length: "quietP (readString_length len shift)"
  unfolding quietP_def
proof
  fix p
  show "readString_length len shift (core p) =
      map_option (\<lambda>(r, q). (r, core q)) (readString_length len shift p)"
  proof (cases "readString_length len shift p")
    case None
    with readString_length_uncore [of len shift p] show ?thesis
      by (cases "readString_length len shift (core p)") auto
  next
    case (Some y)
    then show ?thesis
      using readString_length_core [of len shift p "fst y" "snd y"] by (simp add: split_beta)
  qed
qed

lemma quietP_readString [simp]: "quietP readString" "quietP (readString_n k)"
  unfolding readString_def readString_n_def
  by (intro quietP_thenDoP quietP_readString_length quietP_lift quiet_readBytes)+

lemma quietP_repeat_readP:
  assumes "quietP m"
  shows "quietP (repeat_readP i m acc)"
  unfolding quietP_def
proof
  fix p
  show "repeat_readP i m acc (core p) = map_option (\<lambda>(r, q). (r, core q)) (repeat_readP i m acc p)"
    using assms
  proof (induction i m acc p rule: repeat_readP.induct)
    case (1 i m acc p)
    show ?case
    proof (cases "i > 0")
      case False
      then show ?thesis
        by (simp add: repeat_readP.simps [of i m acc])
    next
      case True
      show ?thesis
      proof (cases "m p")
        case None
        with True quietPD_None [OF "1.prems" None] show ?thesis
          by (simp add: repeat_readP.simps [of i m acc])
      next
        case (Some y)
        obtain r q where y: "y = (r, q)" by (cases y)
        note mc = quietPD' [OF "1.prems" Some [unfolded y]]
        show ?thesis
        proof (cases r)
          case (Inl e)
          with True Some y mc show ?thesis by (simp add: repeat_readP.simps [of i m acc])
        next
          case (Inr b)
          from "1.IH" [OF True Some [unfolded y Inr] refl refl "1.prems"]
          have "repeat_readP (i - 1) m (acc @ [b]) (core q) =
              map_option (\<lambda>(r, q). (r, core q)) (repeat_readP (i - 1) m (acc @ [b]) q)" .
          with True Some y mc Inr show ?thesis
            by (simp add: repeat_readP.simps [of i m acc])
        qed
      qed
    qed
  qed
qed

subsection \<open>The validator and the header decoder without the accessor\<close>

lemma quietP_preamble: "quietP preamble"
  unfolding preamble_def
  by (intro quietP_thenDoP quietP_lift quietP_readString quiet_reads quiet_skipBytes
      quiet_repeat_read quiet_parseBitsByte quiet_ret)

lemma quietP_parseNecessaryData: "quietP parseNecessaryData"
  unfolding quietP_def
proof
  fix p
  from quietPD [OF quietP_preamble, of "set_offset (At 0) p"]
  have "preamble (set_offset (At 0) (core p)) =
      map_option (\<lambda>(r, q). (r, core q)) (preamble (set_offset (At 0) p))" by simp
  then show "parseNecessaryData (core p) = map_option (\<lambda>(r, q). (r, core q)) (parseNecessaryData p)"
    by (auto simp: parseNecessaryData_def Let_def split: option.splits sum.splits prod.splits)
qed

lemma quiet_read_each: "list_all quiet ms \<Longrightarrow> quiet (read_each ms)"
  by (induction ms) (auto intro!: quiet_thenDo)

lemma quietP_readers [simp]:
  "quietP rInt32" "quietP rInt16" "quietP rUInt8" "quietP rBoolean" "quietP rFloat32"
  "quietP rFloat64" "quietP (rBytes n)" "quietP rString" "quietP (rConst v)"
  unfolding rInt32_def rInt16_def rUInt8_def rBoolean_def rFloat32_def rFloat64_def rBytes_def
    rString_def rConst_def
  by (intro quietP_thenDoP quietP_lift quiet_thenDo quiet_reads quiet_readBoolean quiet_readBytes
      quiet_ret quietP_readString)+

lemma quietP_rArray [simp]: "list_all quiet ms \<Longrightarrow> quietP (rArray ms)"
  unfolding rArray_def by (intro quietP_lift quiet_thenDo quiet_read_each quiet_ret)

lemma quietP_rCounted [simp]: "quiet cnt \<Longrightarrow> quiet m \<Longrightarrow> quietP (rCounted cnt m)"
  unfolding rCounted_def by (intro quietP_lift quiet_thenDo quiet_repeat_read quiet_ret)

lemma quietP_rCountedStrings [simp]: "quiet cnt \<Longrightarrow> quietP (rCountedStrings cnt)"
  unfolding rCountedStrings_def
  by (intro quietP_thenDoP quietP_lift quietP_repeat_readP quietP_readString quiet_ret)

lemma quietP_exec:
  "all_reads quietP s \<Longrightarrow> quietP (exec s data)"
  "all_reads_list quietP ss \<Longrightarrow> quietP (exec_all ss data)"
proof (induction s data and ss data rule: exec_exec_all.induct)
  case (1 name rd data)
  then show ?case by (auto intro!: quietP_thenDoP quietP_lift)
next
  case (2 name f data)
  then show ?case by (auto intro!: quietP_lift)
next
  case (3 c ss1 ss2 data)
  then show ?case by (cases c) simp_all
next
  case (4 data)
  then show ?case by (auto intro!: quietP_lift)
next
  case (5 s ss data)
  then show ?case by (auto intro!: quietP_thenDoP)
qed

lemma header_reads_quiet: "all_reads_list quietP (header_fields world)"
  by (simp add: header_fields_def)

lemma quietP_parseHeader: "quietP (parseHeader world)"
  unfolding parseHeader_def by (rule quietP_exec(2) [OF header_reads_quiet])

lemma quietP_parse_section:
  "quietP fn \<Longrightarrow> quietP (parse_section secs name idx world fn)"
  unfolding parse_section_def
  by (intro quietP_if quietP_thenDoP quietP_lift quiet_jumpTo quiet_ret)

subsection \<open>The decode with and without a callback\<close>

lemma core_install_progress:
  "core (install_progress ((new_parser buf)\<lparr>ignoreBounds := False\<rparr>)) = (new_parser buf)\<lparr>ignoreBounds := False\<rparr>"
  by (simp add: core_def install_progress_def new_parser_def)

lemma core_fresh: "core ((new_parser buf)\<lparr>ignoreBounds := False\<rparr>) = (new_parser buf)\<lparr>ignoreBounds := False\<rparr>"
  by (simp add: core_def new_parser_def)

lemma quietP_sections:
  "quietP (thenDoP parseNecessaryData (\<lambda>world.
     thenDoP (parse_section secs ''header'' 1 world (parseHeader world)) (\<lambda>h.
     thenDoP (parse_section secs ''tiles'' 2 world (lift (parseWorldTiles world))) (\<lambda>t.
     lift (ret \<lparr>header_part = h, tiles_part = t\<rparr>)))))"
  by (intro quietP_thenDoP quietP_parseNecessaryData quietP_parse_section quietP_parseHeader
      quietP_lift quiet_parseWorldTiles quiet_ret)

lemma parse_core:
  "map_option (\<lambda>(r, q). (r, core q)) (parse \<lparr>sections = secs, progressCallback = True\<rparr> buf) =
   map_option (\<lambda>(r, q). (r, core q)) (parse \<lparr>sections = secs, progressCallback = False\<rparr> buf)"
proof -
  let ?p = "(new_parser buf)\<lparr>ignoreBounds := False\<rparr>"
  let ?body = "thenDoP parseNecessaryData (\<lambda>world.
     thenDoP (parse_section (map toLowerCase secs) ''header'' 1 world (parseHeader world)) (\<lambda>h.
     thenDoP (parse_section (map toLowerCase secs) ''tiles'' 2 world (lift (parseWorldTiles world))) (\<lambda>t.
     lift (ret \<lparr>header_part = h, tiles_part = t\<rparr>))))"
  have with_cb: "parse \<lparr>sections = secs, progressCallback = True\<rparr> buf = ?body (install_progress ?p)"
    by (simp add: parse_def Let_def)
  have without: "parse \<lparr>sections = secs, progressCallback = False\<rparr> buf = ?body ?p"
    by (simp add: parse_def Let_def)
  from quietPD [OF quietP_sections, of "map toLowerCase secs" "install_progress ?p"]
  have a: "?body ?p = map_option (\<lambda>(r, q). (r, core q)) (?body (install_progress ?p))"
    by (simp only: core_install_progress)
  from quietPD [OF quietP_sections, of "map toLowerCase secs" ?p]
  have b: "?body ?p = map_option (\<lambda>(r, q). (r, core q)) (?body ?p)"
    by (simp only: core_fresh)
  show ?thesis
    unfolding with_cb without using a b by simp
qed

text \<open>
  C9. For every file and every selection of sections, the decode with a progress callback
  and the decode without one have the same outcome: both return the same object (the same
  header properties and the same tile grid, or neither), or both throw the same error, or
  neither returns; and they leave the parser in the same state (cursor, buffer, mode and
  run counter) apart from the accessor, so the decode has gone the same way through the
  file. The sections are decoded in the order of \<^verbatim>\<open>sectionMap\<close> in both.
\<close>

theorem progress_noninterference:
  "map_option fst (parse \<lparr>sections = secs, progressCallback = True\<rparr> buf) =
     map_option fst (parse \<lparr>sections = secs, progressCallback = False\<rparr> buf) \<and>
   map_option (\<lambda>(r, q). core q) (parse \<lparr>sections = secs, progressCallback = True\<rparr> buf) =
     map_option (\<lambda>(r, q). core q) (parse \<lparr>sections = secs, progressCallback = False\<rparr> buf)"
  using parse_core [of secs buf]
  by (cases "parse \<lparr>sections = secs, progressCallback = True\<rparr> buf";
      cases "parse \<lparr>sections = secs, progressCallback = False\<rparr> buf")
    (auto simp: split_beta)

text \<open>
  On the file of 92 bytes with the section \<^verbatim>\<open>Tiles\<close> asked for, both decodes return the
  grid of one water tile and no header; one percent of the file is 0 bytes, so with the
  callback every one of the 24 assignments to the offset reports, and without it nothing
  does.
\<close>

theorem progress_noninterference_witness:
  "map_option fst (parse \<lparr>sections = [''Tiles''], progressCallback = True\<rparr> water_file) =
     Some (Inr \<lparr>header_part = None,
                tiles_part = Some [[Some (emptyTile\<lparr>liquidAmount := Some 200, liquidType := Some Water\<rparr>)]]\<rparr>) \<and>
   map_option fst (parse \<lparr>sections = [''Tiles''], progressCallback = False\<rparr> water_file) =
     Some (Inr \<lparr>header_part = None,
                tiles_part = Some [[Some (emptyTile\<lparr>liquidAmount := Some 200, liquidType := Some Water\<rparr>)]]\<rparr>) \<and>
   map_option (\<lambda>(r, q). reported q) (parse \<lparr>sections = [''Tiles''], progressCallback = True\<rparr> water_file) =
     Some [1, 2, 3, 4, 5, 6, 7, 8, 9, 10, 11, 12, 13, 14, 15, 16, 17, 18, 19, 20, 21, 22, 23, 24] \<and>
   map_option (\<lambda>(r, q). reported q) (parse \<lparr>sections = [''Tiles''], progressCallback = False\<rparr> water_file) =
     Some []"
proof -
  let ?T = "parse \<lparr>sections = [''Tiles''], progressCallback = True\<rparr> water_file"
  let ?F = "parse \<lparr>sections = [''Tiles''], progressCallback = False\<rparr> water_file"
  let ?d = "\<lparr>header_part = None,
      tiles_part = Some [[Some (emptyTile\<lparr>liquidAmount := Some 200, liquidType := Some Water\<rparr>)]]\<rparr>"
  have ev: "(case ?F of
           Some (Inr d, q) \<Rightarrow> Option.is_none (header_part d) \<and>
             tiles_part d = Some [[Some (emptyTile\<lparr>liquidAmount := Some 200, liquidType := Some Water\<rparr>)]] \<and>
             reported q = []
         | _ \<Rightarrow> False)"
    by code_simp
  obtain r q where F: "?F = Some (r, q)" using ev by (cases ?F) auto
  obtain d where r: "r = Inr d" using ev F by (cases r) auto
  from ev F r have d: "header_part d = None"
    "tiles_part d = Some [[Some (emptyTile\<lparr>liquidAmount := Some 200, liquidType := Some Water\<rparr>)]]"
    and fr': "reported q = []"
    by (simp_all add: Option.is_none_def)
  from d have "d = ?d" by (cases d) simp
  with F r fr' have f: "map_option fst ?F = Some (Inr ?d)"
    and fr: "map_option (\<lambda>(r, q). reported q) ?F = Some []"
    by simp_all
  have evT: "(case ?T of
           Some (r, q) \<Rightarrow> reported q =
             [1, 2, 3, 4, 5, 6, 7, 8, 9, 10, 11, 12, 13, 14, 15, 16, 17, 18, 19, 20, 21, 22, 23, 24]
         | _ \<Rightarrow> False)"
    by code_simp
  then have tr: "map_option (\<lambda>(r, q). reported q) ?T =
      Some [1, 2, 3, 4, 5, 6, 7, 8, 9, 10, 11, 12, 13, 14, 15, 16, 17, 18, 19, 20, 21, 22, 23, 24]"
    by (cases ?T) auto
  from progress_noninterference [of "[''Tiles'']" water_file] f
  have t: "map_option fst ?T = Some (Inr ?d)"
    by simp
  from t f tr fr show ?thesis by blast
qed

end
